theory Spec2Isabelle
  imports Complex_Main "HOL-Library.AList"
begin

section \<open>Data model of the simulation worker\<close>

text \<open>
  The development embeds \<^verbatim>\<open>src/app/src/lib/sim/worker.ts\<close>, the most complete of the
  engine variants, function by function.  Where the older variant
  \<^verbatim>\<open>src/simulation.worker.ts\<close> does something different and a claim depends on the
  difference, that function is embedded too, under the same name with the suffix
  \<open>_legacy\<close>.

  Conventions of the embedding.
  \<^item> A JavaScript \<^verbatim>\<open>number\<close> is a \<open>real\<close>; counters, identifiers issued by
    the worker and array indices are \<open>nat\<close> (\<open>int\<close> where \<open>-1\<close> is a value).  Where
    the source uses \<^verbatim>\<open>Infinity\<close> as "nothing found" the model uses \<open>None\<close>.  The
    arithmetic is exact, with two exceptions, made where a statement of this file depends
    on them: the average waiting time of the snapshot is a \<open>js_number\<close>, which tells a
    number from \<^verbatim>\<open>NaN\<close> and \<^verbatim>\<open>\<plusminus>Infinity\<close>, and the subtraction of a construction cost
    from the budget is rounded to the nearest double.
  \<^item> The module-level \<^verbatim>\<open>let\<close>/\<^verbatim>\<open>const\<close> variables are the fields of the record
    \<open>world\<close>; every function takes the world and returns the new one.
  \<^item> A \<^verbatim>\<open>Record<key, value>\<close> table is an association list in enumeration order;
    a new key is appended, an existing key is overwritten in place
    (\<open>AList.update\<close>), \<^verbatim>\<open>delete\<close> is \<open>AList.delete\<close>, \<^verbatim>\<open>Object.values\<close> is
    \<open>map snd\<close>.  Keys are compared as identifiers; the coercion of a numeric key to
    its decimal string is not modelled.  Nor is the rule by which JavaScript enumerates
    integer-like keys before all others, in ascending order: the tables of the model
    keep insertion order.  For the incident table the two orders agree, since its keys
    are issued in ascending order; for stations and lines they agree when the
    identifiers are names.
  \<^item> \<^verbatim>\<open>postMessage\<close> appends to the field \<open>outbox\<close>.
  \<^item> \<^verbatim>\<open>Math.random()\<close> reads the next element of a stream \<open>rand\<close> carried in the
    world.
  \<^item> An uncaught \<^verbatim>\<open>TypeError\<close> (reading a property of \<^verbatim>\<open>undefined\<close>) is the result
    \<open>Inl TypeError\<close>; the model does not follow the worker past it.
\<close>

type_synonym coord = "real \<times> real"

datatype eid = IdNum int | IdStr string | IdCoords coord

datatype label = Label string | StationLabel eid

record point_feature =
  pf_coordinates :: coord
  pf_prop_id :: "eid option"
  pf_prop_name :: "string option"
  pf_prop_demand :: "real option"
  pf_id :: "eid option"

record line_feature =
  lf_coordinates :: "coord list"
  lf_prop_id :: "eid option"
  lf_id :: "eid option"

record SimStation =
  st_id :: eid
  st_coords :: coord
  st_name :: label
  st_lines :: "eid list"

record SimLine =
  ln_id :: eid
  ln_coords :: "coord list"
  ln_length :: real
  stationDistances :: "(eid \<times> real) list"
  headway :: real

record RouteLeg =
  lineId :: eid
  fromStationId :: eid
  toStationId :: eid
  leg_rideTime :: real
  leg_coords :: "coord list"

record Route =
  legs :: "RouteLeg list"
  totalTime :: real
  waitTime :: real
  rideTime :: real

record Passenger =
  p_id :: nat
  originStationId :: eid
  destinationStationId :: eid
  route :: "Route option"
  currentLegIndex :: nat
  spawnTime :: real

datatype direction = PlusOne | MinusOne

datatype train_state = Moving | Dwelling

record Train =
  tr_id :: nat
  tr_lineId :: eid
  distanceAlongLine :: real
  speed :: real
  direction :: direction
  tstate :: train_state
  dwellTimeRemaining :: real
  currentStationIndex :: int
  passengers :: "Passenger list"
  capacity :: nat

datatype incident_type = speed_cap | extra_dwell

datatype incident_message = SpeedRestrictionOnTrain nat | DelaysAt label

record Incident =
  inc_id :: nat
  inc_type :: incident_type
  message :: incident_message
  targetId :: eid
  expiresAt :: real
  inc_value :: real

text \<open>
  The result of a JavaScript division, where the outcome at divisor zero matters:
  \<^verbatim>\<open>x / 0\<close> is \<^verbatim>\<open>NaN\<close> for \<open>x = 0\<close> and \<^verbatim>\<open>\<plusminus>Infinity\<close> otherwise, none of which is
  a real number.
\<close>

datatype js_number = Num real | NaN | Infinity | MinusInfinity

definition js_divide :: "real \<Rightarrow> real \<Rightarrow> js_number" where
  "js_divide x y =
    (if y \<noteq> 0 then Num (x / y)
     else if x = 0 then NaN
     else if 0 < x then Infinity
     else MinusInfinity)"

record train_feature =
  tf_coordinates :: coord
  tf_id :: nat
  tf_loadFactor :: real

record snapshot =
  snap_trains :: "train_feature list"
  snap_simTime :: real
  snap_stationQueues :: "(eid \<times> nat) list"
  snap_totalRidership :: nat
  snap_budget :: real
  snap_cashflowPerHour :: real
  snap_avgWaitTime :: js_number
  snap_dailyStationRidership :: "(eid \<times> nat) list"
  snap_dailyLineRidership :: "(eid \<times> nat) list"

record nearby_station =
  ns_id :: eid
  ns_name :: label
  ns_distance :: real
  ns_walkTime :: real

datatype event =
    WORKER_READY
  | NETWORK_READY
  | TICK snapshot
  | INCIDENT_EVENT Incident bool
  | JOURNEY_PLAN_RESULT "Route option" real real
  | DEMAND_GRID_DATA "point_feature list"
  | DEMAND_DETAILS_RESULT coord "nearby_station list" "real list"

datatype error = TypeError

record world =
  linesOrigin :: "line_feature list"
  stationsOrigin :: "point_feature list"
  simTime :: real
  simulationInterval :: bool
  running :: bool
  trains :: "Train list"
  simLines :: "(eid \<times> SimLine) list"
  simStations :: "(eid \<times> SimStation) list"
  stationQueues :: "(eid \<times> Passenger list) list"
  allPassengers :: "nat list"
  nextTrainId :: nat
  nextPassengerId :: nat
  nextIncidentId :: nat
  totalRidership :: nat
  budget :: real
  cashflowPerHour :: real
  totalPassengerWaitTime :: real
  completedTrips :: nat
  dailyStationRidership :: "(eid \<times> nat) list"
  dailyLineRidership :: "(eid \<times> nat) list"
  lastDayRollover :: real
  totalTrainKm :: real
  lastIncidentKm :: real
  totalRevenue :: real
  totalOpex :: real
  activeIncidents :: "(nat \<times> Incident) list"
  DEMAND_GRID :: "point_feature list option"
  TOTAL_DEMAND :: real
  rand :: "nat \<Rightarrow> real"
  randUsed :: nat
  outbox :: "event list"

text \<open>
  \<open>simulationInterval\<close> is \<open>True\<close> while the worker holds a timer handle.
  \<open>allPassengers\<close> keeps only the keys of the source table: its values are the same
  passenger objects that sit in a queue or on a train, and the table is never read.
\<close>

subsection \<open>Constants\<close>

definition TICK_SECONDS :: real where "TICK_SECONDS = (100 / 1000) * 120"
definition TRAIN_ACCELERATION :: real where "TRAIN_ACCELERATION = 8 / 10"
definition MAX_TRAIN_SPEED :: real where "MAX_TRAIN_SPEED = 2222 / 100"
definition BASE_DWELL_TIME :: real where "BASE_DWELL_TIME = 20"
definition TRAIN_CAPACITY :: nat where "TRAIN_CAPACITY = 200"
definition TRAINS_PER_LINE :: nat where "TRAINS_PER_LINE = 4"
definition FARE_PER_KM :: real where "FARE_PER_KM = 15 / 100"
definition OPEX_PER_TRAIN_KM :: real where "OPEX_PER_TRAIN_KM = 5"
definition OPEX_PER_STATION_HOUR :: real where "OPEX_PER_STATION_HOUR = 50"
definition INCIDENT_RATE_PER_10K_KM :: real where "INCIDENT_RATE_PER_10K_KM = 5 / 10"
definition WALK_SPEED_MPS :: real where "WALK_SPEED_MPS = 14 / 10"
definition BUDGET_FLOOR :: real where "BUDGET_FLOOR = - 5000000000"

definition HOURLY_MULTIPLIERS :: "real list" where
  "HOURLY_MULTIPLIERS =
    [1/10, 1/10, 1/10, 1/10, 2/10, 5/10, 8/10, 12/10, 15/10, 12/10, 8/10, 7/10,
     7/10, 6/10, 8/10, 1, 14/10, 16/10, 13/10, 9/10, 6/10, 4/10, 2/10, 1/10]"

definition initial_world :: "(nat \<Rightarrow> real) \<Rightarrow> world" where
  "initial_world r =
    \<lparr> linesOrigin = [], stationsOrigin = [], simTime = 0, simulationInterval = False,
      running = False, trains = [], simLines = [], simStations = [], stationQueues = [],
      allPassengers = [], nextTrainId = 1, nextPassengerId = 1, nextIncidentId = 1,
      totalRidership = 0, budget = 5000000000, cashflowPerHour = 0,
      totalPassengerWaitTime = 0, completedTrips = 0, dailyStationRidership = [],
      dailyLineRidership = [], lastDayRollover = 0, totalTrainKm = 0, lastIncidentKm = 0,
      totalRevenue = 0, totalOpex = 0, activeIncidents = [], DEMAND_GRID = None,
      TOTAL_DEMAND = 0, rand = r, randUsed = 0, outbox = [WORKER_READY] \<rparr>"

definition postMessage :: "event \<Rightarrow> world \<Rightarrow> world" where
  "postMessage e w = w\<lparr>outbox := outbox w @ [e]\<rparr>"

definition clamp :: "real \<Rightarrow> real \<Rightarrow> real \<Rightarrow> real" where
  "clamp v lo hi = min hi (max lo v)"

subsection \<open>Geometry\<close>

text \<open>
  \<^verbatim>\<open>Math.atan2(y, x)\<close> and the haversine distance \<^verbatim>\<open>turfDistance\<close> (metres), over the
  reals.  A position is the pair (longitude, latitude) of the first two entries of the
  source's coordinate array.  (For latitudes outside \<open>[-90, 90]\<close> the term under the
  square root can be negative, where the source yields \<^verbatim>\<open>NaN\<close>; the model has no
  \<^verbatim>\<open>NaN\<close> for distances, and statements about positions on a line are made for lines
  whose length is not negative.)
\<close>

definition atan2 :: "real \<Rightarrow> real \<Rightarrow> real" where
  "atan2 y x =
    (if 0 < x then arctan (y / x)
     else if x < 0 then (if 0 \<le> y then arctan (y / x) + pi else arctan (y / x) - pi)
     else if 0 < y then pi / 2
     else if y < 0 then - (pi / 2)
     else 0)"

definition turfDistance :: "coord \<Rightarrow> coord \<Rightarrow> real" where
  "turfDistance from to =
    (let R = 6371;
         dLat = ((snd to - snd from) * pi) / 180;
         dLon = ((fst to - fst from) * pi) / 180;
         a = (sin (dLat / 2))\<^sup>2
             + cos ((snd from * pi) / 180) * cos ((snd to * pi) / 180) * (sin (dLon / 2))\<^sup>2;
         c = 2 * atan2 (sqrt a) (sqrt (1 - a))
     in R * c * 1000)"

text \<open>
  The sum of the first \<open>n\<close> segment lengths of a polyline: the loop of \<^verbatim>\<open>prepareLines\<close>
  that adds up \<^verbatim>\<open>totalLength\<close> (with \<open>n = length coords - 1\<close>) and the
  \<^verbatim>\<open>slice(0, index).reduce(...)\<close> that gives \<^verbatim>\<open>snapshotDistance\<close> (with \<open>n = index\<close>).
\<close>

definition segmentSum :: "coord list \<Rightarrow> nat \<Rightarrow> real" where
  "segmentSum coords n = sum_list (map (\<lambda>i. turfDistance (coords ! i) (coords ! (i + 1))) [0..<n])"

fun findIndex :: "('a \<Rightarrow> bool) \<Rightarrow> 'a list \<Rightarrow> nat option" where
  "findIndex P [] = None"
| "findIndex P (x # xs) =
    (if P x then Some 0 else (case findIndex P xs of None \<Rightarrow> None | Some i \<Rightarrow> Some (Suc i)))"

definition setAdd :: "'a \<Rightarrow> 'a list \<Rightarrow> 'a list" where
  "setAdd x xs = (if x \<in> set xs then xs else xs @ [x])"

subsection \<open>Building the network\<close>

definition resetSimulation :: "world \<Rightarrow> world" where
  "resetSimulation w =
    w\<lparr> simLines := [], simStations := [], stationQueues := [], trains := [],
       nextTrainId := 1, nextPassengerId := 1, totalRidership := 0,
       totalPassengerWaitTime := 0, completedTrips := 0, totalRevenue := 0,
       totalOpex := 0, cashflowPerHour := 0 \<rparr>"

definition addStationToSimulation :: "point_feature \<Rightarrow> world \<Rightarrow> world" where
  "addStationToSimulation feature w =
    (let i = (case pf_prop_id feature of Some i \<Rightarrow> i
              | None \<Rightarrow> (case pf_id feature of Some i \<Rightarrow> i
                         | None \<Rightarrow> IdCoords (pf_coordinates feature)));
         simStation = \<lparr> st_id = i, st_coords = pf_coordinates feature,
                        st_name = (case pf_prop_name feature of Some n \<Rightarrow> Label n
                                   | None \<Rightarrow> StationLabel i),
                        st_lines = [] \<rparr>
     in w\<lparr> simStations := AList.update i simStation (simStations w),
           stationQueues := AList.update i [] (stationQueues w) \<rparr>)"

text \<open>Decimal digits of a number, for the template string \<^verbatim>\<open>`line-${nextTrainId++}`\<close>.\<close>

function show_nat :: "nat \<Rightarrow> string" where
  "show_nat n =
    (if n < 10 then [''0123456789'' ! n] else show_nat (n div 10) @ [''0123456789'' ! (n mod 10)])"
  by pat_completeness auto
termination
  by (relation "measure (\<lambda>n. n)") auto

text \<open>
  One vertex of a line in \<^verbatim>\<open>prepareLines\<close>: the first station of the table within 50 m
  is recorded with the distance walked so far, and the line is added to that station's
  set of lines.  The first component of the result is the table with that station
  updated, the second the entry pushed onto \<^verbatim>\<open>stationDistances\<close>, if any.
\<close>

fun snapVertex :: "eid \<Rightarrow> coord \<Rightarrow> real \<Rightarrow> (eid \<times> SimStation) list
    \<Rightarrow> (eid \<times> SimStation) list \<times> (eid \<times> real) option" where
  "snapVertex i coord d [] = ([], None)"
| "snapVertex i coord d ((k, s) # rest) =
    (if turfDistance (st_coords s) coord < 50
     then ((k, s\<lparr>st_lines := setAdd i (st_lines s)\<rparr>) # rest, Some (st_id s, d))
     else (case snapVertex i coord d rest of (rest', r) \<Rightarrow> ((k, s) # rest', r)))"

fun snapVertices :: "eid \<Rightarrow> coord list \<Rightarrow> nat list \<Rightarrow> (eid \<times> SimStation) list
    \<Rightarrow> (eid \<times> real) list \<Rightarrow> (eid \<times> SimStation) list \<times> (eid \<times> real) list" where
  "snapVertices i coords [] stations acc = (stations, acc)"
| "snapVertices i coords (index # ixs) stations acc =
    (case snapVertex i (coords ! index) (segmentSum coords index) stations of
       (stations', None) \<Rightarrow> snapVertices i coords ixs stations' acc
     | (stations', Some sd) \<Rightarrow> snapVertices i coords ixs stations' (acc @ [sd]))"

definition lineIdentity :: "line_feature \<Rightarrow> world \<Rightarrow> eid \<times> world" where
  \<comment> \<open>\<^verbatim>\<open>lineFeature.properties.id ?? lineFeature.id ?? `line-${nextTrainId++}`\<close>\<close>
  "lineIdentity lineFeature w =
    (case lf_prop_id lineFeature of Some i \<Rightarrow> (i, w)
     | None \<Rightarrow> (case lf_id lineFeature of Some i \<Rightarrow> (i, w)
         | None \<Rightarrow> (IdStr (''line-'' @ show_nat (nextTrainId w)),
                    w\<lparr>nextTrainId := nextTrainId w + 1\<rparr>)))"

definition prepareLine :: "line_feature \<Rightarrow> world \<Rightarrow> world" where
  "prepareLine lineFeature w =
    (if length (lf_coordinates lineFeature) < 2 then w
     else
       let (i, w1) = lineIdentity lineFeature w;
           coords = lf_coordinates lineFeature;
           totalLength = segmentSum coords (length coords - 1);
           (stations', sds) = snapVertices i coords [0..<length coords] (simStations w1) [];
           w2 = w1\<lparr>simStations := stations'\<rparr>
       in if length sds < 2 then w2
          else
            let sorted = sort_key snd sds;
                simLine = \<lparr> ln_id = i, ln_coords = coords, ln_length = totalLength,
                            stationDistances = sorted,
                            headway = max 120 ((real (length sorted) - 1) * 90) \<rparr>
            in w2\<lparr>simLines := AList.update i simLine (simLines w2)\<rparr>)"

definition prepareLines :: "world \<Rightarrow> world" where
  "prepareLines w = fold prepareLine (linesOrigin w) w"

definition newTrain :: "nat \<Rightarrow> SimLine \<Rightarrow> real \<Rightarrow> Train" where
  "newTrain n line pos =
    \<lparr> tr_id = n, tr_lineId = ln_id line, distanceAlongLine = pos, speed = 0,
      direction = PlusOne, tstate = Moving, dwellTimeRemaining = 0,
      currentStationIndex = - 1, passengers = [], capacity = TRAIN_CAPACITY \<rparr>"

definition spawnTrainsForLine :: "SimLine \<Rightarrow> world \<Rightarrow> world" where
  "spawnTrainsForLine line w =
    (if length (stationDistances line) < 2 then w
     else
       let spacing = ln_length line / real TRAINS_PER_LINE
       in w\<lparr> trains := trains w
                  @ map (\<lambda>i. newTrain (nextTrainId w + i) line (spacing * real i))
                        [0..<TRAINS_PER_LINE],
             nextTrainId := nextTrainId w + TRAINS_PER_LINE \<rparr>)"

definition updateNetwork :: "line_feature list \<Rightarrow> point_feature list \<Rightarrow> world \<Rightarrow> world" where
  "updateNetwork lines stations w =
    (let w1 = resetSimulation (w\<lparr>linesOrigin := lines, stationsOrigin := stations\<rparr>);
         w2 = fold addStationToSimulation (stationsOrigin w1) w1;
         w3 = prepareLines w2;
         w4 = fold spawnTrainsForLine (map snd (simLines w3)) w3
     in postMessage NETWORK_READY w4)"

subsection \<open>Timer\<close>

definition startSimulation :: "world \<Rightarrow> world" where
  "startSimulation w =
    (if \<not> simulationInterval w then w\<lparr>simulationInterval := True, running := True\<rparr> else w)"

definition pauseSimulation :: "world \<Rightarrow> world" where
  "pauseSimulation w =
    (let w1 = (if simulationInterval w then w\<lparr>simulationInterval := False\<rparr> else w)
     in w1\<lparr>running := False\<rparr>)"

subsection \<open>Positions along a line\<close>

text \<open>
  \<^verbatim>\<open>getPointAlongLine\<close>; \<open>None\<close> is the \<^verbatim>\<open>undefined\<close> read from an empty coordinate
  array.  The loop over the segments is the recursion over the index \<open>i\<close>, bounded by
  the number \<open>n\<close> of segments still to visit.  (Where a segment has length zero the source
  divides by zero and yields \<^verbatim>\<open>NaN\<close> coordinates; the model then yields the start of
  the segment.)
\<close>

fun pointLoop :: "coord list \<Rightarrow> real \<Rightarrow> real \<Rightarrow> nat \<Rightarrow> nat \<Rightarrow> coord option" where
  "pointLoop coords distance distanceTraveled i 0 =
    (if coords = [] then None else Some (last coords))"
| "pointLoop coords distance distanceTraveled i (Suc n) =
    (let start = coords ! i; end = coords ! (i + 1);
         segmentLength = turfDistance start end
     in if distanceTraveled + segmentLength \<ge> distance
        then (let remaining = distance - distanceTraveled;
                  ratio = remaining / segmentLength
              in Some (fst start + (fst end - fst start) * ratio,
                       snd start + (snd end - snd start) * ratio))
        else pointLoop coords distance (distanceTraveled + segmentLength) (i + 1) n)"

definition getPointAlongLine :: "SimLine \<Rightarrow> real \<Rightarrow> coord option" where
  "getPointAlongLine line distance =
    (if distance \<le> 0 then (case ln_coords line of [] \<Rightarrow> None | c # _ \<Rightarrow> Some c)
     else pointLoop (ln_coords line) distance 0 0 (length (ln_coords line) - 1))"

text \<open>
  \<^verbatim>\<open>getNextStation\<close>: the nearest station strictly ahead of the train, with its
  distance; \<open>None\<close> stands for \<^verbatim>\<open>{nextStation: null, distToNextStation: Infinity}\<close>.
  One loop body serves both directions; the backward scan visits the stations from the
  last to the first.
\<close>

definition nextStep :: "Train \<Rightarrow> (eid \<times> real) \<Rightarrow> ((eid \<times> real) \<times> real) option
    \<Rightarrow> ((eid \<times> real) \<times> real) option" where
  "nextStep train station best =
    (let ahead = (if direction train = PlusOne
                  then snd station > distanceAlongLine train
                  else snd station < distanceAlongLine train);
         dist = (if direction train = PlusOne
                 then snd station - distanceAlongLine train
                 else distanceAlongLine train - snd station)
     in if ahead \<and> (case best of None \<Rightarrow> True | Some (_, distToNext) \<Rightarrow> dist < distToNext)
        then Some (station, dist) else best)"

definition getNextStation :: "Train \<Rightarrow> SimLine \<Rightarrow> ((eid \<times> real) \<times> real) option" where
  "getNextStation train line =
    (if direction train = PlusOne
     then fold (nextStep train) (stationDistances line) None
     else fold (nextStep train) (rev (stationDistances line)) None)"

text \<open>\<^verbatim>\<open>findNearestStation\<close>: the first station of the table at minimal distance.\<close>

definition nearestStep :: "coord \<Rightarrow> SimStation \<Rightarrow> (SimStation \<times> real) option
    \<Rightarrow> (SimStation \<times> real) option" where
  "nearestStep coords station best =
    (let dist = turfDistance coords (st_coords station)
     in if (case best of None \<Rightarrow> True | Some (_, minDistance) \<Rightarrow> dist < minDistance)
        then Some (station, dist) else best)"

definition findNearestStation :: "world \<Rightarrow> coord \<Rightarrow> SimStation option" where
  "findNearestStation w coords =
    map_option fst (fold (nearestStep coords) (map snd (simStations w)) None)"

definition isTrainHeadingToStation :: "world \<Rightarrow> Train \<Rightarrow> eid \<Rightarrow> bool" where
  "isTrainHeadingToStation w train targetStationId =
    (case map_of (simLines w) (tr_lineId train) of None \<Rightarrow> False
     | Some line \<Rightarrow>
        (case find (\<lambda>s. fst s = targetStationId) (stationDistances line) of None \<Rightarrow> False
         | Some target \<Rightarrow>
            (if direction train = PlusOne then snd target > distanceAlongLine train
             else snd target < distanceAlongLine train)))"

subsection \<open>Routing\<close>

definition extractLineSegment :: "SimLine \<Rightarrow> eid \<Rightarrow> eid \<Rightarrow> coord list" where
  "extractLineSegment line fromId toId =
    (case (findIndex (\<lambda>sd. fst sd = fromId) (stationDistances line),
           findIndex (\<lambda>sd. fst sd = toId) (stationDistances line)) of
       (Some fromIdx, Some toIdx) \<Rightarrow>
          (let start = min fromIdx toIdx; end = max fromIdx toIdx
           in take (end + 1 - start) (drop start (ln_coords line)))
     | _ \<Rightarrow> ln_coords line)"

record queue_entry =
  qe_stationId :: eid
  qe_path :: "RouteLeg list"
  qe_wait :: nat

text \<open>
  The body of the inner \<^verbatim>\<open>while\<close> of \<^verbatim>\<open>findRoute\<close> for one neighbour on the line.  The
  loop itself walks the indices \<open>stationIndex - 1, \<dots>, 0\<close> for \<open>dir = -1\<close> and then
  \<open>stationIndex + 1, \<dots>, length - 1\<close> for \<open>dir = 1\<close>; \<open>expandLine\<close> folds the body over
  these two runs of the station list in that order.
\<close>

definition visitNeighbor :: "SimLine \<Rightarrow> eid \<Rightarrow> SimStation \<Rightarrow> nat \<Rightarrow> queue_entry
    \<Rightarrow> (eid \<times> real) \<Rightarrow> queue_entry list \<times> eid set \<Rightarrow> queue_entry list \<times> eid set" where
  "visitNeighbor line lid station stationIndex current neighbor qv =
    (case qv of (queue, visited) \<Rightarrow>
      if fst neighbor \<notin> visited
      then (let rideDist = \<bar>snd neighbor - snd (stationDistances line ! stationIndex)\<bar>;
                leg = \<lparr> lineId = lid, fromStationId = st_id station,
                        toStationId = fst neighbor, leg_rideTime = (rideDist / 500) * 60,
                        leg_coords = extractLineSegment line (st_id station) (fst neighbor) \<rparr>
            in (queue @ [\<lparr> qe_stationId = fst neighbor, qe_path = qe_path current @ [leg],
                            qe_wait = qe_wait current + 1 \<rparr>],
                insert (fst neighbor) visited))
      else (queue, visited))"

definition expandLine :: "world \<Rightarrow> SimStation \<Rightarrow> queue_entry \<Rightarrow> eid
    \<Rightarrow> queue_entry list \<times> eid set \<Rightarrow> queue_entry list \<times> eid set" where
  "expandLine w station current lid qv =
    (case map_of (simLines w) lid of None \<Rightarrow> qv
     | Some line \<Rightarrow>
        (case findIndex (\<lambda>sd. fst sd = st_id station) (stationDistances line) of None \<Rightarrow> qv
         | Some stationIndex \<Rightarrow>
            fold (visitNeighbor line lid station stationIndex current)
                 (rev (take stationIndex (stationDistances line))
                  @ drop (stationIndex + 1) (stationDistances line)) qv))"

definition finishRoute :: "queue_entry \<Rightarrow> Route" where
  "finishRoute current =
    (let totalRide = sum_list (map leg_rideTime (qe_path current));
         wt = real (length (qe_path current)) * 90
     in \<lparr> legs = qe_path current, totalTime = totalRide + wt, waitTime = wt,
          rideTime = totalRide \<rparr>)"

text \<open>All station identifiers that occur on a stored line: the search never leaves them.\<close>

definition lineStationIds :: "world \<Rightarrow> eid set" where
  "lineStationIds w = (\<Union>l \<in> snd ` set (simLines w). fst ` set (stationDistances l))"

definition searchMeasure :: "world \<Rightarrow> queue_entry list \<times> eid set \<Rightarrow> nat" where
  "searchMeasure w qv = length (fst qv) + 2 * card (lineStationIds w - snd qv)"

lemma finite_lineStationIds: "finite (lineStationIds w)"
  by (simp add: lineStationIds_def)

lemma visitNeighbor_measure:
  assumes "fst neighbor \<in> lineStationIds w"
  shows "searchMeasure w (visitNeighbor line lid station k current neighbor qv)
         \<le> searchMeasure w qv"
proof (cases qv)
  case (Pair queue visited)
  show ?thesis
  proof (cases "fst neighbor \<in> visited")
    case True
    with Pair show ?thesis by (simp add: visitNeighbor_def)
  next
    case False
    have fin: "finite (lineStationIds w - visited)"
      using finite_lineStationIds by simp
    have mem: "fst neighbor \<in> lineStationIds w - visited"
      using assms False by simp
    have eq: "lineStationIds w - insert (fst neighbor) visited
              = (lineStationIds w - visited) - {fst neighbor}"
      by auto
    have "card (lineStationIds w - visited) \<ge> 1"
      using fin mem by (metis One_nat_def Suc_leI card_gt_0_iff empty_iff)
    moreover have "card (lineStationIds w - insert (fst neighbor) visited)
                   = card (lineStationIds w - visited) - 1"
      using fin mem eq by simp
    ultimately show ?thesis
      using Pair False by (simp add: visitNeighbor_def searchMeasure_def Let_def)
  qed
qed

lemma fold_visitNeighbor_measure:
  "\<forall>n \<in> set ns. fst n \<in> lineStationIds w \<Longrightarrow>
   searchMeasure w (fold (visitNeighbor line lid station k current) ns qv)
   \<le> searchMeasure w qv"
proof (induction ns arbitrary: qv)
  case Nil
  then show ?case by simp
next
  case (Cons n ns)
  have "searchMeasure w (fold (visitNeighbor line lid station k current) ns
          (visitNeighbor line lid station k current n qv))
        \<le> searchMeasure w (visitNeighbor line lid station k current n qv)"
    using Cons by simp
  also have "\<dots> \<le> searchMeasure w qv"
    using Cons.prems by (simp add: visitNeighbor_measure)
  finally show ?case by simp
qed

lemma stationDistances_in_lineStationIds:
  "map_of (simLines w) lid = Some line \<Longrightarrow> n \<in> set (stationDistances line)
   \<Longrightarrow> fst n \<in> lineStationIds w"
  unfolding lineStationIds_def by (force dest: map_of_SomeD)

lemma expandLine_measure:
  "searchMeasure w (expandLine w station current lid qv) \<le> searchMeasure w qv"
proof (cases "map_of (simLines w) lid")
  case None
  then show ?thesis by (simp add: expandLine_def)
next
  case (Some line)
  show ?thesis
  proof (cases "findIndex (\<lambda>sd. fst sd = st_id station) (stationDistances line)")
    case None
    with Some show ?thesis by (simp add: expandLine_def)
  next
    case (Some k)
    have "\<forall>n \<in> set (rev (take k (stationDistances line))
                     @ drop (k + 1) (stationDistances line)). fst n \<in> lineStationIds w"
      using \<open>map_of (simLines w) lid = Some line\<close>
      by (auto dest: in_set_takeD in_set_dropD stationDistances_in_lineStationIds)
    then have "searchMeasure w (fold (visitNeighbor line lid station k current)
                 (rev (take k (stationDistances line))
                  @ drop (k + 1) (stationDistances line)) qv) \<le> searchMeasure w qv"
      by (rule fold_visitNeighbor_measure)
    then show ?thesis
      using Some \<open>map_of (simLines w) lid = Some line\<close>
      by (simp add: expandLine_def del: fold_append)
  qed
qed

lemma fold_expandLine_measure:
  "searchMeasure w (fold (expandLine w station current) lids qv) \<le> searchMeasure w qv"
proof (induction lids arbitrary: qv)
  case Nil
  then show ?case by simp
next
  case (Cons lid lids)
  have "searchMeasure w (fold (expandLine w station current) lids
          (expandLine w station current lid qv))
        \<le> searchMeasure w (expandLine w station current lid qv)"
    using Cons by simp
  also have "\<dots> \<le> searchMeasure w qv"
    by (rule expandLine_measure)
  finally show ?case by simp
qed

text \<open>
  The outer \<^verbatim>\<open>while (queue.length > 0)\<close> of \<^verbatim>\<open>findRoute\<close>: \<^verbatim>\<open>queue.shift()\<close> takes
  the head of the list.  Each round removes one entry, and every entry added marks a
  station of some stored line as visited for the first time, so the loop ends.
\<close>

function findRouteLoop :: "world \<Rightarrow> eid \<Rightarrow> queue_entry list \<Rightarrow> eid set \<Rightarrow> Route option" where
  "findRouteLoop w dest [] visited = None"
| "findRouteLoop w dest (current # queue) visited =
    (if qe_stationId current = dest then Some (finishRoute current)
     else (case map_of (simStations w) (qe_stationId current) of
             None \<Rightarrow> findRouteLoop w dest queue visited
           | Some station \<Rightarrow>
               (let qv = fold (expandLine w station current) (st_lines station) (queue, visited)
                in findRouteLoop w dest (fst qv) (snd qv))))"
  by pat_completeness auto
termination
proof (relation "measure (\<lambda>(w, dest, queue, visited). searchMeasure w (queue, visited))")
  show "wf (measure (\<lambda>(w, dest, queue, visited). searchMeasure w (queue, visited)))"
    by simp
next
  fix w :: world and dest :: eid and current :: queue_entry
    and queue :: "queue_entry list" and visited :: "eid set"
  show "((w, dest, queue, visited), (w, dest, current # queue, visited))
        \<in> measure (\<lambda>(w, dest, queue, visited). searchMeasure w (queue, visited))"
    by (simp add: searchMeasure_def)
next
  fix w :: world and dest :: eid and current :: queue_entry
    and queue :: "queue_entry list" and visited :: "eid set"
    and station :: SimStation and qv :: "queue_entry list \<times> eid set"
  assume "qv = fold (expandLine w station current) (st_lines station) (queue, visited)"
  then have "searchMeasure w qv \<le> searchMeasure w (queue, visited)"
    by (simp add: fold_expandLine_measure)
  then show "((w, dest, fst qv, snd qv), (w, dest, current # queue, visited))
        \<in> measure (\<lambda>(w, dest, queue, visited). searchMeasure w (queue, visited))"
    by (cases qv) (simp add: searchMeasure_def)
qed

definition findRoute :: "world \<Rightarrow> eid \<Rightarrow> eid \<Rightarrow> Route option" where
  "findRoute w originId destId =
    findRouteLoop w destId [\<lparr> qe_stationId = originId, qe_path = [], qe_wait = 0 \<rparr>] {originId}"

subsection \<open>Passengers\<close>

definition js_rem :: "real \<Rightarrow> real \<Rightarrow> real" where
  \<comment> \<open>the \<^verbatim>\<open>%\<close> of JavaScript: the quotient is truncated towards zero\<close>
  "js_rem x y = x - y * real_of_int (if 0 \<le> x / y then \<lfloor>x / y\<rfloor> else \<lceil>x / y\<rceil>)"

definition Math_round :: "real \<Rightarrow> int" where
  "Math_round x = \<lfloor>x + 1 / 2\<rfloor>"

definition random :: "world \<Rightarrow> real \<times> world" where
  "random w = (rand w (randUsed w), w\<lparr>randUsed := randUsed w + 1\<rparr>)"

definition at_index :: "'a list \<Rightarrow> int \<Rightarrow> 'a option" where
  \<comment> \<open>\<^verbatim>\<open>xs[i]\<close>, with \<open>None\<close> for \<^verbatim>\<open>undefined\<close>\<close>
  "at_index xs i = (if 0 \<le> i \<and> i < int (length xs) then Some (xs ! nat i) else None)"

definition pushQueue :: "eid \<Rightarrow> Passenger \<Rightarrow> world \<Rightarrow> error + world" where
  \<comment> \<open>\<^verbatim>\<open>stationQueues[id].push(passenger)\<close>\<close>
  "pushQueue i passenger w =
    (case map_of (stationQueues w) i of None \<Rightarrow> Inl TypeError
     | Some q \<Rightarrow> Inr (w\<lparr>stationQueues := AList.update i (q @ [passenger]) (stationQueues w)\<rparr>))"

text \<open>The passenger object and the two writes that end one round of the spawn loop.\<close>

definition enqueuePassenger :: "SimStation \<Rightarrow> SimStation \<Rightarrow> world \<Rightarrow> error + world" where
  "enqueuePassenger originStation destStation w =
    (let passenger =
           \<lparr> p_id = nextPassengerId w,
             originStationId = st_id originStation,
             destinationStationId = st_id destStation,
             route = None, currentLegIndex = 0, spawnTime = simTime w \<rparr>;
         w1 = w\<lparr> nextPassengerId := nextPassengerId w + 1,
                 allPassengers := setAdd (p_id passenger) (allPassengers w) \<rparr>
     in pushQueue (st_id originStation) passenger w1)"

definition spawnOne :: "point_feature list \<Rightarrow> world \<Rightarrow> error + world" where
  "spawnOne features w =
    (let (r1, w1) = random w;
         oi = \<lfloor>r1 * real (length features)\<rfloor>;
         (r2, w2) = random w1;
         di = \<lfloor>r2 * real (length features)\<rfloor>
     in case (at_index features oi, at_index features di) of
          (Some originPoint, Some destPoint) \<Rightarrow>
            if oi = di then Inr w2
            else (case (findNearestStation w2 (pf_coordinates originPoint),
                        findNearestStation w2 (pf_coordinates destPoint)) of
                    (Some originStation, Some destStation) \<Rightarrow>
                      if st_id originStation = st_id destStation then Inr w2
                      else enqueuePassenger originStation destStation w2
                  | _ \<Rightarrow> Inr w2)
        | _ \<Rightarrow> Inr w2)"

fun spawnLoop :: "point_feature list \<Rightarrow> nat \<Rightarrow> world \<Rightarrow> error + world" where
  "spawnLoop features 0 w = Inr w"
| "spawnLoop features (Suc n) w =
    (case spawnOne features w of Inl e \<Rightarrow> Inl e | Inr w' \<Rightarrow> spawnLoop features n w')"

definition spawnPassengers :: "int \<Rightarrow> world \<Rightarrow> error + world" where
  "spawnPassengers hour w =
    (case DEMAND_GRID w of None \<Rightarrow> Inr w
     | Some features \<Rightarrow>
        if simStations w = [] then Inr w
        else (case at_index HOURLY_MULTIPLIERS hour of None \<Rightarrow> Inr w
              | Some hourlyMultiplier \<Rightarrow>
                  let passengersToSpawn =
                        Math_round ((TOTAL_DEMAND w / 86400) * TICK_SECONDS * hourlyMultiplier * 40)
                  in spawnLoop features (nat passengersToSpawn) w))"

subsection \<open>Station arrival\<close>

definition legAt :: "Passenger \<Rightarrow> RouteLeg option" where
  \<comment> \<open>\<^verbatim>\<open>passenger.route?.legs[passenger.currentLegIndex]\<close>\<close>
  "legAt p =
    (case route p of None \<Rightarrow> None
     | Some r \<Rightarrow> if currentLegIndex p < length (legs r) then Some (legs r ! currentLegIndex p)
                else None)"

definition alightsAt :: "SimStation \<Rightarrow> Passenger \<Rightarrow> bool" where
  "alightsAt station p =
    (route p \<noteq> None \<and>
     (case legAt p of None \<Rightarrow> False | Some leg \<Rightarrow> toStationId leg = st_id station))"

definition bump :: "eid \<Rightarrow> (eid \<times> nat) list \<Rightarrow> (eid \<times> nat) list" where
  \<comment> \<open>\<^verbatim>\<open>table[key] = (table[key] || 0) + 1\<close>\<close>
  "bump k table = AList.update k ((case map_of table k of None \<Rightarrow> 0 | Some n \<Rightarrow> n) + 1) table"

definition legDistance :: "world \<Rightarrow> RouteLeg \<Rightarrow> error + real" where
  "legDistance w leg =
    (case map_of (simLines w) (lineId leg) of None \<Rightarrow> Inl TypeError
     | Some legLine \<Rightarrow>
        let from = (case find (\<lambda>s. fst s = fromStationId leg) (stationDistances legLine) of
                      None \<Rightarrow> 0 | Some s \<Rightarrow> snd s);
            to = (case find (\<lambda>s. fst s = toStationId leg) (stationDistances legLine) of
                      None \<Rightarrow> 0 | Some s \<Rightarrow> snd s)
        in Inr \<bar>to - from\<bar>)"

fun routeDistance :: "world \<Rightarrow> RouteLeg list \<Rightarrow> real \<Rightarrow> error + real" where
  "routeDistance w [] acc = Inr acc"
| "routeDistance w (leg # rest) acc =
    (case legDistance w leg of Inl e \<Rightarrow> Inl e | Inr d \<Rightarrow> routeDistance w rest (acc + d))"

definition alightOne :: "SimStation \<Rightarrow> Passenger \<Rightarrow> world \<Rightarrow> error + world" where
  "alightOne station p w =
    (let passenger = p\<lparr>currentLegIndex := currentLegIndex p + 1\<rparr>
     in case route passenger of
          None \<Rightarrow>
            Inr (w\<lparr> totalPassengerWaitTime := totalPassengerWaitTime w + (simTime w - spawnTime passenger),
                    completedTrips := completedTrips w + 1,
                    totalRidership := totalRidership w + 1,
                    allPassengers := removeAll (p_id passenger) (allPassengers w),
                    dailyStationRidership :=
                      bump (destinationStationId passenger)
                        (bump (originStationId passenger) (dailyStationRidership w)),
                    totalRevenue := totalRevenue w + (0 / 1000) * FARE_PER_KM \<rparr>)
        | Some r \<Rightarrow>
            if currentLegIndex passenger \<ge> length (legs r)
            then (let w1 = w\<lparr> totalPassengerWaitTime :=
                                 totalPassengerWaitTime w + (simTime w - spawnTime passenger),
                               completedTrips := completedTrips w + 1,
                               totalRidership := totalRidership w + 1,
                               allPassengers := removeAll (p_id passenger) (allPassengers w),
                               dailyStationRidership :=
                                 bump (destinationStationId passenger)
                                   (bump (originStationId passenger) (dailyStationRidership w)),
                               dailyLineRidership :=
                                 fold (\<lambda>leg. bump (lineId leg)) (legs r) (dailyLineRidership w) \<rparr>
                  in case routeDistance w1 (legs r) 0 of Inl e \<Rightarrow> Inl e
                     | Inr routeDist \<Rightarrow>
                         Inr (w1\<lparr>totalRevenue := totalRevenue w1 + (routeDist / 1000) * FARE_PER_KM\<rparr>))
            else pushQueue (st_id station) passenger w)"

fun alightAll :: "SimStation \<Rightarrow> Passenger list \<Rightarrow> world \<Rightarrow> error + world" where
  "alightAll station [] w = Inr w"
| "alightAll station (p # ps) w =
    (case alightOne station p w of Inl e \<Rightarrow> Inl e | Inr w' \<Rightarrow> alightAll station ps w')"

text \<open>
  The callback of \<^verbatim>\<open>queue.filter\<close> in the boarding step, for one queued passenger.
  The accumulator holds the passengers now aboard, the number boarded and the passengers
  kept in the queue.  A passenger who stays keeps the route the callback has just stored
  in it.
\<close>

definition boardStep :: "world \<Rightarrow> Train \<Rightarrow> Passenger
    \<Rightarrow> Passenger list \<times> nat \<times> Passenger list \<Rightarrow> Passenger list \<times> nat \<times> Passenger list" where
  "boardStep w train p acc =
    (case acc of (aboard, boarding, kept) \<Rightarrow>
      if length aboard \<ge> capacity train then (aboard, boarding, kept @ [p])
      else
        let passenger =
              (if route p = None
               then p\<lparr> route := findRoute w (originStationId p) (destinationStationId p),
                       currentLegIndex := 0 \<rparr>
               else p)
        in case legAt passenger of
             None \<Rightarrow> (aboard, boarding, kept @ [passenger])
           | Some leg \<Rightarrow>
               if lineId leg = tr_lineId train
                  \<and> isTrainHeadingToStation w train (toStationId leg)
               then (aboard @ [passenger], boarding + 1, kept)
               else (aboard, boarding, kept @ [passenger]))"

definition extraDwell :: "world \<Rightarrow> SimStation \<Rightarrow> real \<Rightarrow> real" where
  "extraDwell w station dwellTime =
    fold (\<lambda>incident d.
            if inc_type incident = extra_dwell \<and> targetId incident = st_id station
            then d + inc_value incident else d)
         (map snd (activeIncidents w)) dwellTime"

text \<open>The boarding block: \<^verbatim>\<open>if (queue) { stationQueues[station.id] = queue.filter(...) }\<close>.\<close>

definition boardQueue :: "world \<Rightarrow> SimStation \<Rightarrow> Train \<Rightarrow> Train \<times> nat \<times> world" where
  "boardQueue w station train =
    (case map_of (stationQueues w) (st_id station) of
       None \<Rightarrow> (train, 0, w)
     | Some queue \<Rightarrow>
         (case fold (boardStep w train) queue (passengers train, 0, []) of
            (aboard, boarding, kept) \<Rightarrow>
              (train\<lparr>passengers := aboard\<rparr>, boarding,
               w\<lparr>stationQueues := AList.update (st_id station) kept (stationQueues w)\<rparr>)))"

definition handleStationArrival :: "world \<Rightarrow> Train \<Rightarrow> SimLine \<Rightarrow> (eid \<times> real)
    \<Rightarrow> error + (world \<times> Train)" where
  "handleStationArrival w train0 line stationDist =
    (let train = train0\<lparr>speed := 0, tstate := Dwelling, distanceAlongLine := snd stationDist\<rparr>
     in case map_of (simStations w) (fst stationDist) of None \<Rightarrow> Inr (w, train)
        | Some station \<Rightarrow>
           let stationIdx = (case findIndex (\<lambda>sd. fst sd = st_id station) (stationDistances line) of
                               None \<Rightarrow> - 1 | Some k \<Rightarrow> int k);
               train1 = train\<lparr>currentStationIndex := stationIdx\<rparr>;
               alighting = filter (alightsAt station) (passengers train1);
               train2 = train1\<lparr>passengers :=
                           filter (\<lambda>p. route p \<noteq> None \<and> \<not> alightsAt station p) (passengers train1)\<rparr>
           in case alightAll station alighting w of Inl e \<Rightarrow> Inl e
              | Inr w1 \<Rightarrow>
                 (case boardQueue w1 station train2 of
                    (train3, boarding, w2) \<Rightarrow>
                      let dwellTime = extraDwell w2 station
                            (BASE_DWELL_TIME + real (length alighting + boarding) * (25 / 100))
                      in Inr (w2, train3\<lparr>dwellTimeRemaining := dwellTime\<rparr>)))"

subsection \<open>Train movement\<close>

definition targetSpeedFor :: "world \<Rightarrow> Train \<Rightarrow> real" where
  "targetSpeedFor w train =
    fold (\<lambda>incident targetSpeed.
            if inc_type incident = speed_cap \<and> targetId incident = IdNum (int (tr_id train))
            then min targetSpeed (inc_value incident) else targetSpeed)
         (map snd (activeIncidents w)) MAX_TRAIN_SPEED"

definition endOfLine :: "SimLine \<Rightarrow> Train \<Rightarrow> Train" where
  "endOfLine line train =
    (if distanceAlongLine train \<ge> ln_length line
     then train\<lparr>distanceAlongLine := ln_length line, direction := MinusOne\<rparr>
     else if distanceAlongLine train \<le> 0
     then train\<lparr>distanceAlongLine := 0, direction := PlusOne\<rparr>
     else train)"

text \<open>
  The speed and position update of a moving train: brake when the next station is closer
  than the braking distance, otherwise accelerate, in both cases clamped to
  \<open>[0, targetSpeed]\<close>; then advance by \<open>speed \<times> TICK_SECONDS\<close> in the direction of travel.
\<close>

definition moveTrain :: "world \<Rightarrow> Train \<Rightarrow> ((eid \<times> real) \<times> real) option \<Rightarrow> Train" where
  "moveTrain w train next =
    (let brakingDistance = (speed train * speed train) / (2 * TRAIN_ACCELERATION);
         targetSpeed = targetSpeedFor w train;
         braking = (case next of None \<Rightarrow> False
                    | Some (_, distToNextStation) \<Rightarrow> distToNextStation < brakingDistance);
         t1 = (if braking
               then train\<lparr>speed := clamp (speed train - TRAIN_ACCELERATION * TICK_SECONDS)
                                         0 targetSpeed\<rparr>
               else train\<lparr>speed := clamp (speed train + TRAIN_ACCELERATION * TICK_SECONDS)
                                         0 targetSpeed\<rparr>);
         distanceMoved = speed t1 * TICK_SECONDS
     in t1\<lparr>distanceAlongLine :=
              distanceAlongLine t1 + distanceMoved * (if direction t1 = PlusOne then 1 else - 1)\<rparr>)"

text \<open>
  The callback of \<^verbatim>\<open>trains.forEach\<close> in \<^verbatim>\<open>updateTrains\<close>, for one train.  The result
  is the world, the train as the callback leaves it and the distance it moved in this
  tick.
\<close>

definition updateTrain :: "world \<Rightarrow> Train \<Rightarrow> error + (world \<times> Train \<times> real)" where
  "updateTrain w train =
    (case map_of (simLines w) (tr_lineId train) of None \<Rightarrow> Inr (w, train, 0)
     | Some line \<Rightarrow>
        if length (stationDistances line) < 2 then Inr (w, train, 0)
        else if tstate train = Dwelling
        then (let t1 = train\<lparr>dwellTimeRemaining := dwellTimeRemaining train - TICK_SECONDS\<rparr>
              in if dwellTimeRemaining t1 \<le> 0
                 then Inr (w, t1\<lparr>tstate := Moving, currentStationIndex := - 1\<rparr>, 0)
                 else Inr (w, t1, 0))
        else
          let next = getNextStation train line;
              t2 = moveTrain w train next;
              distanceMoved = speed t2 * TICK_SECONDS
          in case (case next of
                     Some (nextStation, distToNextStation) \<Rightarrow>
                       if distToNextStation \<le> distanceMoved
                       then handleStationArrival w t2 line nextStation
                       else Inr (w, t2)
                   | None \<Rightarrow> Inr (w, t2)) of
               Inl e \<Rightarrow> Inl e
             | Inr (w', t3) \<Rightarrow> Inr (w', endOfLine line t3, distanceMoved))"

fun updateTrainsLoop :: "Train list \<Rightarrow> world \<Rightarrow> Train list \<Rightarrow> real
    \<Rightarrow> error + (world \<times> Train list \<times> real)" where
  "updateTrainsLoop [] w processed distanceTraveledThisTick =
    Inr (w, processed, distanceTraveledThisTick)"
| "updateTrainsLoop (train # rest) w processed distanceTraveledThisTick =
    (case updateTrain w train of Inl e \<Rightarrow> Inl e
     | Inr (w', train', distanceMoved) \<Rightarrow>
         updateTrainsLoop rest w' (processed @ [train']) (distanceTraveledThisTick + distanceMoved))"

definition updateTrains :: "world \<Rightarrow> error + world" where
  "updateTrains w =
    (case updateTrainsLoop (trains w) w [] 0 of Inl e \<Rightarrow> Inl e
     | Inr (w', trains', distanceTraveledThisTick) \<Rightarrow>
         Inr (w'\<lparr> trains := trains',
                  totalTrainKm := totalTrainKm w' + distanceTraveledThisTick / 1000 \<rparr>))"

subsection \<open>Economics\<close>

definition updateEconomics :: "world \<Rightarrow> world" where
  "updateEconomics w =
    (let trainKmCost = totalTrainKm w * OPEX_PER_TRAIN_KM;
         stationHoursCost =
           real (length (simStations w)) * (OPEX_PER_STATION_HOUR * (TICK_SECONDS / 3600));
         w1 = w\<lparr>totalOpex := totalOpex w + (trainKmCost + stationHoursCost)\<rparr>;
         revenuePerHour = totalRevenue w1 / max (simTime w1 / 3600) 1;
         opexPerHour = totalOpex w1 / max (simTime w1 / 3600) 1;
         w2 = w1\<lparr>cashflowPerHour := revenuePerHour - opexPerHour\<rparr>
     in w2\<lparr>budget := budget w2 + (cashflowPerHour w2 / 3600) * TICK_SECONDS\<rparr>)"

text \<open>
  The older worker charges the kilometres and then clears the counter
  (\<^verbatim>\<open>totalTrainKm = 0; // Reset for next tick calculation\<close>), so that at the next call
  the counter holds the kilometres of one tick only.
\<close>

definition updateEconomics_legacy :: "world \<Rightarrow> world" where
  "updateEconomics_legacy w =
    (let opexThisTick = (totalTrainKm w * OPEX_PER_TRAIN_KM)
           + (real (length (simStations w)) * OPEX_PER_STATION_HOUR / 3600 * TICK_SECONDS);
         w1 = w\<lparr> totalOpex := totalOpex w + opexThisTick, budget := budget w - opexThisTick,
                 totalTrainKm := 0 \<rparr>
     in if \<lfloor>simTime w1 / 3600\<rfloor> > \<lfloor>(simTime w1 - TICK_SECONDS) / 3600\<rfloor>
        then w1\<lparr>cashflowPerHour := totalRevenue w1 - totalOpex w1, totalOpex := 0,
                totalRevenue := 0\<rparr>
        else w1)"

subsection \<open>Incidents\<close>

definition checkForIncidents :: "world \<Rightarrow> world" where
  "checkForIncidents w =
    (if totalTrainKm w - lastIncidentKm w < 10000 / max INCIDENT_RATE_PER_10K_KM (1 / 100) then w
     else
       let w1 = w\<lparr>lastIncidentKm := totalTrainKm w\<rparr>;
           incidentId = nextIncidentId w1;
           w2 = w1\<lparr>nextIncidentId := nextIncidentId w1 + 1\<rparr>;
           (r, w3) = random w2
       in if r < 1 / 2
          then (let (r', w4) = random w3
                in case at_index (trains w4) \<lfloor>r' * real (length (trains w4))\<rfloor> of
                     None \<Rightarrow> w4
                   | Some randomTrain \<Rightarrow>
                       let incident =
                             \<lparr> inc_id = incidentId, inc_type = speed_cap,
                               message = SpeedRestrictionOnTrain (tr_id randomTrain),
                               targetId = IdNum (int (tr_id randomTrain)),
                               expiresAt = simTime w4 + 1800,
                               inc_value = MAX_TRAIN_SPEED * (6 / 10) \<rparr>
                       in postMessage (INCIDENT_EVENT incident True)
                            (w4\<lparr>activeIncidents :=
                                  AList.update incidentId incident (activeIncidents w4)\<rparr>))
          else (let stations = map snd (simStations w3);
                    (r', w4) = random w3
                in case at_index stations \<lfloor>r' * real (length stations)\<rfloor> of
                     None \<Rightarrow> w4
                   | Some randomStation \<Rightarrow>
                       let incident =
                             \<lparr> inc_id = incidentId, inc_type = extra_dwell,
                               message = DelaysAt (st_name randomStation),
                               targetId = st_id randomStation,
                               expiresAt = simTime w4 + 1200,
                               inc_value = 15 \<rparr>
                       in postMessage (INCIDENT_EVENT incident True)
                            (w4\<lparr>activeIncidents :=
                                  AList.update incidentId incident (activeIncidents w4)\<rparr>)))"

text \<open>
  \<^verbatim>\<open>cleanupIncidents\<close> walks the array that \<^verbatim>\<open>Object.values\<close> built before the first
  deletion.
\<close>

definition cleanupStep :: "Incident \<Rightarrow> world \<Rightarrow> world" where
  "cleanupStep incident w =
    (if expiresAt incident \<le> simTime w
     then (postMessage (INCIDENT_EVENT incident False) w)
            \<lparr>activeIncidents := AList.delete (inc_id incident) (activeIncidents w)\<rparr>
     else w)"

definition cleanupIncidents :: "world \<Rightarrow> world" where
  "cleanupIncidents w = fold cleanupStep (map snd (activeIncidents w)) w"

subsection \<open>The tick\<close>

definition buildTrainFeature :: "world \<Rightarrow> Train \<Rightarrow> train_feature" where
  "buildTrainFeature w train =
    (let coords = (case map_of (simLines w) (tr_lineId train) of None \<Rightarrow> Some (0, 0)
                   | Some line \<Rightarrow>
                       getPointAlongLine line (clamp (distanceAlongLine train) 0 (ln_length line)));
         loadFactor = (if capacity train > 0
                       then real (length (passengers train)) / real (capacity train) else 0)
     in \<lparr> tf_coordinates = (case coords of None \<Rightarrow> (0, 0) | Some c \<Rightarrow> c),
          tf_id = tr_id train, tf_loadFactor = loadFactor \<rparr>)"

definition buildSnapshot :: "world \<Rightarrow> snapshot" where
  "buildSnapshot w =
    \<lparr> snap_trains = map (buildTrainFeature w) (trains w),
      snap_simTime = simTime w,
      snap_stationQueues = map (\<lambda>(k, q). (k, length q)) (stationQueues w),
      snap_totalRidership = totalRidership w,
      snap_budget = budget w,
      snap_cashflowPerHour = cashflowPerHour w,
      snap_avgWaitTime = (if completedTrips w > 0
                          then js_divide (totalPassengerWaitTime w) (real (completedTrips w))
                          else Num 0),
      snap_dailyStationRidership = dailyStationRidership w,
      snap_dailyLineRidership = dailyLineRidership w \<rparr>"

definition simulationTick :: "world \<Rightarrow> error + world" where
  "simulationTick w =
    (let w1 = w\<lparr>simTime := simTime w + TICK_SECONDS\<rparr>;
         currentHour = \<lfloor>js_rem (simTime w1) 86400 / 3600\<rfloor>;
         w2 = (if \<lfloor>simTime w1 / 86400\<rfloor> > \<lfloor>lastDayRollover w1 / 86400\<rfloor>
               then w1\<lparr> dailyStationRidership := [], dailyLineRidership := [],
                        lastDayRollover := simTime w1 \<rparr>
               else w1)
     in case spawnPassengers currentHour w2 of Inl e \<Rightarrow> Inl e
        | Inr w3 \<Rightarrow>
           (case updateTrains w3 of Inl e \<Rightarrow> Inl e
            | Inr w4 \<Rightarrow>
               let w5 = cleanupIncidents (checkForIncidents (updateEconomics w4))
               in Inr (postMessage (TICK (buildSnapshot w5)) w5)))"

subsection \<open>Demand grid\<close>

definition demandCell :: "nat \<times> nat \<Rightarrow> world \<times> point_feature list \<Rightarrow> world \<times> point_feature list" where
  "demandCell ij acc =
    (case acc of (w, features) \<Rightarrow>
      let width = ((1006 / 10) - (1004 / 10)) / 20;
          height = ((138 / 10) - (137 / 10)) / 20;
          lng = (1004 / 10) + real (fst ij) * width;
          lat = (137 / 10) + real (snd ij) * height;
          (r1, w1) = random w;
          (r2, w2) = random w1;
          demand = Math_round (r1 * r2 * 200)
      in if demand > 8
         then (w2\<lparr>TOTAL_DEMAND := TOTAL_DEMAND w2 + real_of_int demand\<rparr>,
               features @ [\<lparr> pf_coordinates = (lng, lat), pf_prop_id = None,
                               pf_prop_name = None, pf_prop_demand = Some (real_of_int demand),
                               pf_id = None \<rparr>])
         else (w2, features))"

definition createDemandGrid :: "world \<Rightarrow> world" where
  "createDemandGrid w =
    (case fold demandCell (concat (map (\<lambda>i. map (\<lambda>j. (i, j)) [0..<20]) [0..<20]))
            (w\<lparr>TOTAL_DEMAND := 0\<rparr>, []) of
       (w', features) \<Rightarrow> w'\<lparr>DEMAND_GRID := Some features\<rparr>)"

definition setDemandGrid :: "point_feature list \<Rightarrow> world \<Rightarrow> world" where
  "setDemandGrid grid w =
    w\<lparr> DEMAND_GRID := Some grid,
       TOTAL_DEMAND := fold (\<lambda>feature acc. acc + (case pf_prop_demand feature of None \<Rightarrow> 0
                                                    | Some d \<Rightarrow> d)) grid 0 \<rparr>"

subsection \<open>Journey planning and demand details\<close>

definition handlePlanJourney :: "coord \<Rightarrow> coord \<Rightarrow> world \<Rightarrow> world" where
  "handlePlanJourney originCoords destCoords w =
    (case (findNearestStation w originCoords, findNearestStation w destCoords) of
       (Some originStation, Some destStation) \<Rightarrow>
         let walkTo = turfDistance originCoords (st_coords originStation) / WALK_SPEED_MPS;
             walkFrom = turfDistance destCoords (st_coords destStation) / WALK_SPEED_MPS
         in (case findRoute w (st_id originStation) (st_id destStation) of
               None \<Rightarrow> postMessage (JOURNEY_PLAN_RESULT None walkTo walkFrom) w
             | Some r \<Rightarrow>
                 postMessage
                   (JOURNEY_PLAN_RESULT (Some (r\<lparr>totalTime := totalTime r + (walkTo + walkFrom)\<rparr>))
                      walkTo walkFrom) w)
     | _ \<Rightarrow> w)"

fun randoms :: "nat \<Rightarrow> world \<Rightarrow> real list \<times> world" where
  "randoms 0 w = ([], w)"
| "randoms (Suc n) w =
    (case random w of (r, w1) \<Rightarrow> (case randoms n w1 of (rs, w2) \<Rightarrow> (r # rs, w2)))"

definition handleDemandDetails :: "coord \<Rightarrow> world \<Rightarrow> world" where
  "handleDemandDetails coords w =
    (let entries = map (\<lambda>station. (station, turfDistance coords (st_coords station)))
                       (map snd (simStations w));
         near = take 5 (sort_key snd (filter (\<lambda>entry. snd entry < 2000) entries));
         nearbyStations =
           map (\<lambda>(station, distance).
                  \<lparr> ns_id = st_id station, ns_name = st_name station, ns_distance = distance,
                    ns_walkTime = distance / WALK_SPEED_MPS \<rparr>) near;
         (hourlyDistribution, w1) = randoms 12 w
     in postMessage (DEMAND_DETAILS_RESULT coords nearbyStations hourlyDistribution) w1)"

subsection \<open>Construction cost\<close>

text \<open>
  \<^verbatim>\<open>budget -= cost\<close> is a subtraction of doubles: its result is the double nearest to the
  difference, ties going to the even significand.  \<open>toDouble\<close> is that rounding for the
  binary64 format: 53 significant bits in the normal range, a fixed spacing of
  \<open>2\<^sup>-\<^sup>1\<^sup>0\<^sup>7\<^sup>4\<close> below \<open>2\<^sup>-\<^sup>1\<^sup>0\<^sup>2\<^sup>2\<close>.  (Overflow to \<^verbatim>\<open>\<plusminus>Infinity\<close> beyond the largest double
  and the sign of zero are not modelled.)
\<close>

definition pow2 :: "int \<Rightarrow> real" where
  "pow2 k = (if 0 \<le> k then 2 ^ nat k else 1 / 2 ^ nat (- k))"

definition roundEven :: "real \<Rightarrow> int" where
  "roundEven y =
    (let f = \<lfloor>y\<rfloor>; d = y - of_int f
     in if d < 1 / 2 then f else if 1 / 2 < d then f + 1 else if even f then f else f + 1)"

definition toDouble :: "real \<Rightarrow> real" where
  "toDouble x =
    (if x = 0 then 0
     else let e = max \<lfloor>log 2 \<bar>x\<bar>\<rfloor> (- 1022); ulp = pow2 (e - 52)
          in ulp * of_int (roundEven (x / ulp)))"

definition handleInfrastructureBuild :: "real \<Rightarrow> world \<Rightarrow> world" where
  "handleInfrastructureBuild cost w =
    (let w1 = w\<lparr>budget := toDouble (budget w - cost)\<rparr>
     in if budget w1 < 0 then w1\<lparr>budget := max (budget w1) BUDGET_FLOOR\<rparr> else w1)"

subsection \<open>Commands\<close>

datatype command =
    START
  | PAUSE
  | UPDATE_NETWORK "line_feature list" "point_feature list"
  | BUILD_INFRASTRUCTURE real
  | PLAN_JOURNEY coord coord
  | GET_DEMAND_GRID
  | SET_DEMAND_GRID "point_feature list"
  | GET_DEMAND_DETAILS coord

fun onmessage :: "command \<Rightarrow> world \<Rightarrow> world" where
  "onmessage START w = startSimulation w"
| "onmessage PAUSE w = pauseSimulation w"
| "onmessage (UPDATE_NETWORK lines stations) w = updateNetwork lines stations w"
| "onmessage (BUILD_INFRASTRUCTURE cost) w = handleInfrastructureBuild cost w"
| "onmessage (PLAN_JOURNEY origin destination) w = handlePlanJourney origin destination w"
| "onmessage GET_DEMAND_GRID w =
    (let w1 = (if DEMAND_GRID w = None then createDemandGrid w else w)
     in case DEMAND_GRID w1 of None \<Rightarrow> w1
        | Some grid \<Rightarrow> postMessage (DEMAND_GRID_DATA grid) w1)"
| "onmessage (SET_DEMAND_GRID grid) w = postMessage (DEMAND_GRID_DATA grid) (setDemandGrid grid w)"
| "onmessage (GET_DEMAND_DETAILS coords) w = handleDemandDetails coords w"

text \<open>
  The worlds the worker can be in: it starts in \<open>initial_world\<close>, handles one message
  at a time, and runs \<open>simulationTick\<close> when the timer fires, which it can only do while
  a timer handle is held.
\<close>

inductive reachable :: "world \<Rightarrow> bool" where
  init: "reachable (initial_world r)"
| message: "reachable w \<Longrightarrow> reachable (onmessage c w)"
| tick: "reachable w \<Longrightarrow> simulationInterval w \<Longrightarrow> simulationTick w = Inr w' \<Longrightarrow> reachable w'"

subsection \<open>The station graph that the route search walks\<close>

text \<open>
  \<open>served w lid\<close>: the line table holds a line under \<open>lid\<close>, with at least two matched
  stations.  \<open>linked w a b\<close>: station \<open>a\<close> is in the station table, one of its lines is in
  the line table and lists \<open>a\<close>, and \<open>b\<close> is another stop of that line; these are exactly
  the pairs for which \<^verbatim>\<open>findRoute\<close> pushes \<open>b\<close> when it expands \<open>a\<close>.  A path in the
  network is a chain of such pairs.
\<close>

definition served :: "world \<Rightarrow> eid \<Rightarrow> bool" where
  "served w lid =
    (\<exists>line. map_of (simLines w) lid = Some line \<and> 2 \<le> length (stationDistances line))"

definition linked :: "world \<Rightarrow> eid \<Rightarrow> eid \<Rightarrow> bool" where
  "linked w a b =
    (\<exists>station lid line k.
        map_of (simStations w) a = Some station
      \<and> lid \<in> set (st_lines station)
      \<and> map_of (simLines w) lid = Some line
      \<and> findIndex (\<lambda>sd. fst sd = st_id station) (stationDistances line) = Some k
      \<and> b \<in> fst ` (set (take k (stationDistances line))
                     \<union> set (drop (k + 1) (stationDistances line))))"

text \<open>The queue entry that \<open>visitNeighbor\<close> appends for the neighbour \<open>n\<close>.\<close>

definition nextEntry :: "SimLine \<Rightarrow> eid \<Rightarrow> SimStation \<Rightarrow> nat \<Rightarrow> queue_entry
    \<Rightarrow> (eid \<times> real) \<Rightarrow> queue_entry" where
  "nextEntry line lid station k current n =
    \<lparr> qe_stationId = fst n,
      qe_path = qe_path current @
        [\<lparr> lineId = lid, fromStationId = st_id station, toStationId = fst n,
           leg_rideTime = (\<bar>snd n - snd (stationDistances line ! k)\<bar> / 500) * 60,
           leg_coords = extractLineSegment line (st_id station) (fst n) \<rparr>],
      qe_wait = qe_wait current + 1 \<rparr>"

definition expands :: "world \<Rightarrow> queue_entry \<Rightarrow> queue_entry \<Rightarrow> bool" where
  "expands w current e =
    (\<exists>station lid line k n.
        map_of (simStations w) (qe_stationId current) = Some station
      \<and> lid \<in> set (st_lines station)
      \<and> map_of (simLines w) lid = Some line
      \<and> findIndex (\<lambda>sd. fst sd = st_id station) (stationDistances line) = Some k
      \<and> n \<in> set (take k (stationDistances line)) \<union> set (drop (k + 1) (stationDistances line))
      \<and> e = nextEntry line lid station k current n)"


subsection \<open>Consecutive ticks and a small network\<close>

fun ticks :: "nat \<Rightarrow> world \<Rightarrow> error + world" where
  "ticks 0 w = Inr w"
| "ticks (Suc n) w = (case simulationTick w of Inl e \<Rightarrow> Inl e | Inr w' \<Rightarrow> ticks n w')"

text \<open>
  A network used for evaluating the worker on a concrete input: one line \<open>L\<close> running one
  degree of latitude north from the point (0, 0), with station \<open>A\<close> on its first vertex and
  station \<open>B\<close> on its last.  \<open>demoWorld\<close> is the worker after it has received this network
  and then \<^verbatim>\<open>START\<close>.
\<close>

definition demoLineFeature :: line_feature where
  "demoLineFeature =
    \<lparr> lf_coordinates = [(0, 0), (0, 1)], lf_prop_id = Some (IdStr ''L''), lf_id = None \<rparr>"

definition demoStationA :: point_feature where
  "demoStationA =
    \<lparr> pf_coordinates = (0, 0), pf_prop_id = Some (IdStr ''A''), pf_prop_name = Some ''A'',
      pf_prop_demand = None, pf_id = None \<rparr>"

definition demoStationB :: point_feature where
  "demoStationB =
    \<lparr> pf_coordinates = (0, 1), pf_prop_id = Some (IdStr ''B''), pf_prop_name = Some ''B'',
      pf_prop_demand = None, pf_id = None \<rparr>"

definition demoLength :: real where
  "demoLength = turfDistance (0, 0) (0, 1)"

definition demoWorld :: world where
  "demoWorld =
    onmessage START
      (onmessage (UPDATE_NETWORK [demoLineFeature] [demoStationA, demoStationB])
         (initial_world (\<lambda>n. 0)))"

definition demoAfter :: "nat \<Rightarrow> world" where
  "demoAfter n = (case ticks n demoWorld of Inr w \<Rightarrow> w | Inl e \<Rightarrow> demoWorld)"

text \<open>
  A second network on the same meridian: the line \<open>L\<close> with \<open>A\<close> and \<open>B\<close> as before, a line
  \<open>M\<close> two degrees further north with its own stations \<open>C\<close> and \<open>D\<close>, and a line \<open>N\<close> that
  passes no station.
\<close>

definition farLineFeature :: line_feature where
  "farLineFeature =
    \<lparr> lf_coordinates = [(0, 2), (0, 3)], lf_prop_id = Some (IdStr ''M''), lf_id = None \<rparr>"

definition lonelyLineFeature :: line_feature where
  "lonelyLineFeature =
    \<lparr> lf_coordinates = [(0, 5), (0, 6)], lf_prop_id = Some (IdStr ''N''), lf_id = None \<rparr>"

definition demoStationC :: point_feature where
  "demoStationC =
    \<lparr> pf_coordinates = (0, 2), pf_prop_id = Some (IdStr ''C''), pf_prop_name = Some ''C'',
      pf_prop_demand = None, pf_id = None \<rparr>"

definition demoStationD :: point_feature where
  "demoStationD =
    \<lparr> pf_coordinates = (0, 3), pf_prop_id = Some (IdStr ''D''), pf_prop_name = Some ''D'',
      pf_prop_demand = None, pf_id = None \<rparr>"

definition splitWorld :: world where
  "splitWorld =
    onmessage (UPDATE_NETWORK [demoLineFeature, farLineFeature, lonelyLineFeature]
                 [demoStationA, demoStationB, demoStationC, demoStationD])
      (initial_world (\<lambda>n. 0))"

subsection \<open>Consistency of the state\<close>

text \<open>
  What holds of the tables in every world the worker can reach (shown below, in
  \<open>reachable_inv\<close>), and what the functions of a tick need in order to return normally.
  \<^item> \<open>routeOK w p\<close>: every leg of the route of passenger \<open>p\<close>, if it has one, is on a line
    of the table with at least two matched stations, so that \<^verbatim>\<open>simLines[leg.lineId]\<close> in
    the fare computation is defined.
  \<^item> \<open>onLine t p\<close>: \<open>p\<close> has a current leg, and it is a leg on the line of train \<open>t\<close>.
  \<^item> \<open>stationsKeyed w\<close>: every station is stored under its own identifier and has a
    queue, so that \<^verbatim>\<open>stationQueues[station.id].push\<close> finds an array.
  \<^item> \<open>queuesOK w\<close>, \<open>ridersOK w t\<close>: the waiting passengers satisfy \<open>routeOK\<close>, the
    passengers aboard \<open>t\<close> satisfy \<open>routeOK\<close> and \<open>onLine t\<close>.
\<close>

definition routeOK :: "world \<Rightarrow> Passenger \<Rightarrow> bool" where
  "routeOK w p =
    (case route p of None \<Rightarrow> True
     | Some r \<Rightarrow> list_all (\<lambda>leg. served w (lineId leg)) (legs r))"

definition onLine :: "Train \<Rightarrow> Passenger \<Rightarrow> bool" where
  "onLine t p = (case legAt p of None \<Rightarrow> False | Some leg \<Rightarrow> lineId leg = tr_lineId t)"

definition stationsKeyed :: "world \<Rightarrow> bool" where
  "stationsKeyed w =
    list_all (\<lambda>(k, s). st_id s = k \<and> map_of (stationQueues w) k \<noteq> None) (simStations w)"

definition queuesOK :: "world \<Rightarrow> bool" where
  "queuesOK w = list_all (\<lambda>(k, q). list_all (routeOK w) q) (stationQueues w)"

definition ridersOK :: "world \<Rightarrow> Train \<Rightarrow> bool" where
  "ridersOK w t = list_all (\<lambda>p. routeOK w p \<and> onLine t p) (passengers t)"

text \<open>What a step inside \<open>updateTrains\<close> leaves alone.\<close>

definition sameNet :: "world \<Rightarrow> world \<Rightarrow> bool" where
  "sameNet w w' =
    (simLines w' = simLines w \<and> simStations w' = simStations w
     \<and> activeIncidents w' = activeIncidents w \<and> simTime w' = simTime w
     \<and> trains w' = trains w \<and> outbox w' = outbox w
     \<and> totalTrainKm w' = totalTrainKm w \<and> lastIncidentKm w' = lastIncidentKm w
     \<and> nextIncidentId w' = nextIncidentId w \<and> simulationInterval w' = simulationInterval w
     \<and> running w' = running w)"

text \<open>What the boarding loop keeps true of its accumulator: the passengers aboard and the
  passengers kept in the queue.\<close>

definition boardAcc :: "world \<Rightarrow> Train \<Rightarrow> Passenger list \<times> nat \<times> Passenger list \<Rightarrow> bool" where
  "boardAcc w train acc =
    (case acc of (aboard, boarding, kept) \<Rightarrow>
       list_all (\<lambda>p. routeOK w p \<and> onLine train p) aboard \<and> list_all (routeOK w) kept)"

text \<open>
  What one call of \<open>updateTrain\<close> does to the train itself: a dwelling train keeps its
  position, speed and direction; a moving train is moved by \<open>moveTrain\<close> and then, if it
  reached its next station, stopped there by \<open>handleStationArrival\<close>; in both cases the
  end-of-line check comes last.
\<close>

definition stepShape :: "world \<Rightarrow> SimLine \<Rightarrow> Train \<Rightarrow> Train \<Rightarrow> bool" where
  "stepShape w line t t' =
    (if tstate t = Dwelling
     then distanceAlongLine t' = distanceAlongLine t \<and> speed t' = speed t
          \<and> direction t' = direction t
     else (\<exists>t3. t' = endOfLine line t3 \<and> direction t3 = direction t
             \<and> (t3 = moveTrain w t (getNextStation t line)
                  \<or> (speed t3 = 0 \<and> tstate t3 = Dwelling))))"

definition stepOK :: "world \<Rightarrow> Train \<Rightarrow> Train \<Rightarrow> bool" where
  "stepOK w t t' =
    (case map_of (simLines w) (tr_lineId t) of None \<Rightarrow> t' = t
     | Some line \<Rightarrow> if length (stationDistances line) < 2 then t' = t
                    else stepShape w line t t')"

definition trainStep :: "world \<Rightarrow> Train \<Rightarrow> Train \<Rightarrow> bool" where
  "trainStep w t t' =
    (tr_id t' = tr_id t \<and> tr_lineId t' = tr_lineId t \<and> capacity t' = capacity t
     \<and> (\<exists>wa. sameNet w wa \<and> stepOK wa t t'))"

text \<open>
  \<^item> \<open>placed w t\<close>: train \<open>t\<close> runs on a line of the table with at least two matched
    stations, it stands still while it dwells, and its position is within the line
    (where the length of the line is not negative).
  \<^item> \<open>linesOK w\<close>: the line table has no key twice, every line is stored under its own
    identifier and has at least two matched stations.
  \<^item> \<open>incidentsTable w\<close>: the incident table has no key twice, every incident is stored
    under its own number, which is below the next number to be issued, and no value is
    negative.  \<open>incidentsFresh w\<close>: no incident of the table has expired.
  \<^item> \<open>consistent w\<close>: all of these.
\<close>

definition placed :: "world \<Rightarrow> Train \<Rightarrow> bool" where
  "placed w t =
    (case map_of (simLines w) (tr_lineId t) of None \<Rightarrow> False
     | Some line \<Rightarrow>
         2 \<le> length (stationDistances line)
       \<and> (tstate t = Dwelling \<longrightarrow> speed t = 0)
       \<and> (0 \<le> ln_length line \<longrightarrow>
             0 \<le> distanceAlongLine t \<and> distanceAlongLine t \<le> ln_length line))"

definition linesOK :: "world \<Rightarrow> bool" where
  "linesOK w =
    (distinct (map fst (simLines w))
     \<and> list_all (\<lambda>(k, l). ln_id l = k \<and> 2 \<le> length (stationDistances l)) (simLines w))"

definition incidentsTable :: "world \<Rightarrow> bool" where
  "incidentsTable w =
    (distinct (map fst (activeIncidents w))
     \<and> list_all (\<lambda>(k, i). inc_id i = k \<and> k < nextIncidentId w \<and> 0 \<le> inc_value i)
          (activeIncidents w))"

definition incidentsFresh :: "world \<Rightarrow> bool" where
  "incidentsFresh w = list_all (\<lambda>(k, i). simTime w < expiresAt i) (activeIncidents w)"

definition consistent :: "world \<Rightarrow> bool" where
  "consistent w =
    (stationsKeyed w \<and> queuesOK w \<and> list_all (ridersOK w) (trains w)
     \<and> list_all (placed w) (trains w) \<and> linesOK w \<and> incidentsTable w \<and> incidentsFresh w)"

text \<open>\<open>checkForIncidents\<close> either leaves the table alone or adds one incident under a new key.\<close>

definition freshIncident :: "world \<Rightarrow> Incident \<Rightarrow> bool" where
  "freshIncident w i =
    (inc_id i = nextIncidentId w \<and> simTime w < expiresAt i \<and> 0 \<le> inc_value i)"

text \<open>The world with the clock advanced by one tick: the world in which the trains are
  updated differs from it only in fields that \<open>updateTrain\<close> does not read.\<close>

definition midTick :: "world \<Rightarrow> world" where
  "midTick w = w\<lparr>simTime := simTime w + TICK_SECONDS\<rparr>"

text \<open>The fields that \<open>consistent\<close> reads.\<close>

definition core :: "world \<Rightarrow>
    (eid \<times> Passenger list) list \<times> (eid \<times> SimStation) list \<times> (eid \<times> SimLine) list
    \<times> Train list \<times> (nat \<times> Incident) list \<times> nat \<times> real" where
  "core w = (stationQueues w, simStations w, simLines w, trains w, activeIncidents w,
             nextIncidentId w, simTime w)"

text \<open>
  Matching the vertices of a line changes only the \<^verbatim>\<open>lines\<close> sets of the stations;
  \<open>building\<close> is what holds of the tables while \<^verbatim>\<open>updateNetwork\<close> fills them: no trains
  yet, every queue empty.
\<close>

definition sameStation :: "(eid \<times> SimStation) \<Rightarrow> (eid \<times> SimStation) \<Rightarrow> bool" where
  "sameStation p p' =
    (fst p' = fst p \<and> st_id (snd p') = st_id (snd p) \<and> st_coords (snd p') = st_coords (snd p))"

definition building :: "world \<Rightarrow> bool" where
  "building w = (stationsKeyed w \<and> linesOK w \<and> trains w = []
                 \<and> list_all (\<lambda>(k, q). q = []) (stationQueues w))"

text \<open>The trains that \<open>spawnTrainsForLine\<close> appends.\<close>

definition freshTrain :: "SimLine \<Rightarrow> Train \<Rightarrow> bool" where
  "freshTrain line t =
    (tr_lineId t = ln_id line \<and> passengers t = [] \<and> tstate t = Moving \<and> speed t = 0
     \<and> 2 \<le> length (stationDistances line)
     \<and> (0 \<le> ln_length line \<longrightarrow>
           0 \<le> distanceAlongLine t \<and> distanceAlongLine t \<le> ln_length line))"

text \<open>
  What a tick does to the position and the direction of a train on a line: the position
  ends within the line; the direction changes only where the position ends on one of
  the two ends, to \<open>-1\<close> at the far end and to \<open>+1\<close> at the near end; and a train that
  was moving and ends on an end of the line faces away from it.
\<close>

definition keepsToLine :: "SimLine \<Rightarrow> Train \<Rightarrow> Train \<Rightarrow> bool" where
  "keepsToLine line t t' =
    ((0 \<le> ln_length line \<longrightarrow>
           0 \<le> distanceAlongLine t' \<and> distanceAlongLine t' \<le> ln_length line)
     \<and> (direction t' \<noteq> direction t \<longrightarrow>
           (distanceAlongLine t' = ln_length line \<and> direction t' = MinusOne)
         \<or> (distanceAlongLine t' = 0 \<and> direction t' = PlusOne))
     \<and> (tstate t = Moving \<and> 0 < ln_length line \<longrightarrow>
           (distanceAlongLine t' = ln_length line \<longrightarrow> direction t' = MinusOne)
         \<and> (distanceAlongLine t' = 0 \<longrightarrow> direction t' = PlusOne)))"

text \<open>
  A train before and after a tick: same train, same line, a line of the table with at
  least two matched stations, the position and direction as above, and a speed between
  zero and the target speed that the incidents active at the start of the tick allow.
\<close>

definition trainTick :: "world \<Rightarrow> Train \<Rightarrow> Train \<Rightarrow> bool" where
  "trainTick w t t' =
    (tr_id t' = tr_id t \<and> tr_lineId t' = tr_lineId t
     \<and> (case map_of (simLines w) (tr_lineId t) of None \<Rightarrow> False
         | Some line \<Rightarrow> 2 \<le> length (stationDistances line) \<and> keepsToLine line t t')
     \<and> 0 \<le> speed t' \<and> speed t' \<le> targetSpeedFor w t)"

subsection \<open>Further networks for evaluation\<close>

text \<open>
  A line \<open>L\<close> of three stations \<open>A\<close>, \<open>B\<close>, \<open>C\<close> on one meridian, 0.00075 degrees of
  latitude (some 83 m) apart, and a demand grid of two cells, one on \<open>B\<close> and one on \<open>C\<close>,
  with a total demand that spawns one passenger per tick at night.  The random numbers
  alternate between 0 and 1/2, so that every passenger travels from the first cell to
  the second, that is from \<open>B\<close> to \<open>C\<close>.  \<open>busyWorld\<close> is the worker after \<^verbatim>\<open>UPDATE_NETWORK\<close>,
  \<^verbatim>\<open>SET_DEMAND_GRID\<close> and \<^verbatim>\<open>START\<close>; \<open>busyAfter n\<close> is that world \<open>n\<close> ticks later.
\<close>

definition busyLineFeature :: line_feature where
  "busyLineFeature =
    \<lparr> lf_coordinates = [(0, 0), (0, 3 / 4000), (0, 3 / 2000)], lf_prop_id = Some (IdStr ''L''),
      lf_id = None \<rparr>"

definition busyStation :: "string \<Rightarrow> real \<Rightarrow> point_feature" where
  "busyStation name lat =
    \<lparr> pf_coordinates = (0, lat), pf_prop_id = Some (IdStr name), pf_prop_name = Some name,
      pf_prop_demand = None, pf_id = None \<rparr>"

definition busyCell :: "real \<Rightarrow> point_feature" where
  "busyCell lat =
    \<lparr> pf_coordinates = (0, lat), pf_prop_id = None, pf_prop_name = None,
      pf_prop_demand = Some 900, pf_id = None \<rparr>"

definition busyWorld :: world where
  "busyWorld =
    onmessage START
      (onmessage (SET_DEMAND_GRID [busyCell (3 / 4000), busyCell (3 / 2000)])
         (onmessage (UPDATE_NETWORK [busyLineFeature]
                       [busyStation ''A'' 0, busyStation ''B'' (3 / 4000), busyStation ''C'' (3 / 2000)])
            (initial_world (\<lambda>n. if even n then 0 else 1 / 2))))"

definition busyAfter :: "nat \<Rightarrow> world" where
  "busyAfter n = (case ticks n busyWorld of Inr w \<Rightarrow> w | Inl e \<Rightarrow> busyWorld)"

text \<open>
  A line of 355 degrees of meridian, from latitude \<open>-89\<close> north to \<open>89\<close> and back south to
  \<open>-88\<close>, with station \<open>A\<close> on its first vertex and station \<open>B\<close> on its last: at least
  24850 km of track, on which the four trains run for more than 6000 km each before the
  first of them comes near \<open>B\<close>.  \<open>longWorld\<close> is the worker after \<^verbatim>\<open>UPDATE_NETWORK\<close> with this
  network and \<^verbatim>\<open>START\<close>, \<open>longAfter n\<close> that world \<open>n\<close> ticks later.  There is no demand grid,
  so no passenger appears and no random number is drawn before the first incident.

  \<open>cruising n w\<close> describes the world after \<open>n\<close> ticks, for \<open>n\<close> from 3 to 18752: every train
  moves north at \<open>MAX_TRAIN_SPEED\<close>, \<open>offset n\<close> metres from where it started, and the
  odometer \<^verbatim>\<open>totalTrainKm\<close> stands at four times that.  It passes 20000 km in tick 18753;
  \<open>firstCap\<close> is the incident that \<^verbatim>\<open>checkForIncidents\<close> creates then.
\<close>

definition longLineFeature :: line_feature where
  "longLineFeature =
    \<lparr> lf_coordinates = [(0, - 89), (0, 89), (0, - 88)], lf_prop_id = Some (IdStr ''L''),
      lf_id = None \<rparr>"

definition longWorld :: world where
  "longWorld =
    onmessage START
      (onmessage (UPDATE_NETWORK [longLineFeature] [busyStation ''A'' (- 89), busyStation ''B'' (- 88)])
         (initial_world (\<lambda>n. 0)))"

definition longAfter :: "nat \<Rightarrow> world" where
  "longAfter n = (case ticks n longWorld of Inr w \<Rightarrow> w | Inl e \<Rightarrow> longWorld)"

definition cruiseAt :: "nat \<Rightarrow> real \<Rightarrow> Train" where
  "cruiseAt k p =
    \<lparr> tr_id = k, tr_lineId = IdStr ''L'', distanceAlongLine = p,
      speed = 1111 / 50, direction = PlusOne, tstate = Moving, dwellTimeRemaining = 0,
      currentStationIndex = - 1, passengers = [], capacity = 200 \<rparr>"

definition cruisers :: "real \<Rightarrow> Train list" where
  "cruisers c =
    [cruiseAt 1 c, cruiseAt 2 (355 * demoLength / 4 + c), cruiseAt 3 (355 * demoLength / 2 + c),
     cruiseAt 4 (1065 * demoLength / 4 + c)]"

definition offset :: "nat \<Rightarrow> real" where
  "offset n = (6666 * real n - 4692) / 25"

definition cruising :: "nat \<Rightarrow> world \<Rightarrow> bool" where
  "cruising n w =
    (simLines w = simLines longWorld \<and> DEMAND_GRID w = None \<and> activeIncidents w = []
     \<and> nextIncidentId w = 1 \<and> lastIncidentKm w = 0 \<and> randUsed w = 0 \<and> rand w = (\<lambda>n. 0)
     \<and> simTime w = 12 * real n
     \<and> totalTrainKm w = 4 * offset n / 1000
     \<and> trains w = cruisers (offset n))"

text \<open>The tick in which the odometer passes 20000 km.\<close>

definition firstCap :: Incident where
  "firstCap =
    \<lparr> inc_id = 1, inc_type = speed_cap, message = SpeedRestrictionOnTrain 1,
      targetId = IdNum 1, expiresAt = 226836, inc_value = MAX_TRAIN_SPEED * (6 / 10) \<rparr>"



section \<open>Evaluating the worker on the small network\<close>

lemma turfDistance_same: "turfDistance c c = 0"
  by (simp add: turfDistance_def atan2_def)

lemma demoLength_value: "demoLength = 6371000 * pi / 180"
proof -
  have pos: "0 < pi / 360" by simp
  have lt: "pi / 360 < pi / 2" by simp
  have s: "0 < sin (pi / 360)"
    using pos lt by (intro sin_gt_zero) auto
  have c: "0 < cos (pi / 360)"
    using pos lt by (intro cos_gt_zero_pi) auto
  have a1: "sqrt ((sin (pi / 360))\<^sup>2) = sin (pi / 360)"
    using s by simp
  have "1 - (sin (pi / 360))\<^sup>2 = (cos (pi / 360))\<^sup>2"
    by (simp add: cos_squared_eq)
  then have a2: "sqrt (1 - (sin (pi / 360))\<^sup>2) = cos (pi / 360)"
    using c by simp
  have at: "arctan (sin (pi / 360) / cos (pi / 360)) = pi / 360"
    using arctan_tan [of "pi / 360"] pos lt by (simp add: tan_def)
  have "atan2 (sqrt ((sin (pi / 360))\<^sup>2)) (sqrt (1 - (sin (pi / 360))\<^sup>2)) = pi / 360"
    unfolding a1 a2 using c at by (simp add: atan2_def)
  then show ?thesis
    by (simp add: demoLength_def turfDistance_def Let_def)
qed

lemma demoLength_gt: "70000 < demoLength"
  using pi_ge_two by (simp add: demoLength_value)

lemmas demo_defs =
  demoWorld_def updateNetwork_def demoLineFeature_def demoStationA_def demoStationB_def
  initial_world_def resetSimulation_def addStationToSimulation_def prepareLines_def
  prepareLine_def lineIdentity_def segmentSum_def turfDistance_same setAdd_def spawnTrainsForLine_def
  postMessage_def startSimulation_def Let_def upt_rec demoLength_def[symmetric]
  TRAINS_PER_LINE_def newTrain_def TRAIN_CAPACITY_def

lemmas tick_defs =
  simulationTick_def spawnPassengers_def updateTrains_def updateTrain_def moveTrain_def
  getNextStation_def
  nextStep_def targetSpeedFor_def clamp_def endOfLine_def updateEconomics_def
  checkForIncidents_def cleanupIncidents_def buildSnapshot_def buildTrainFeature_def
  TICK_SECONDS_def TRAIN_ACCELERATION_def MAX_TRAIN_SPEED_def OPEX_PER_TRAIN_KM_def
  OPEX_PER_STATION_HOUR_def INCIDENT_RATE_PER_10K_KM_def js_rem_def

lemma demo_first_tick: "simulationTick demoWorld = Inr (demoAfter 1)"
  using demoLength_gt by (simp add: demoAfter_def demo_defs tick_defs)

section \<open>The route search\<close>

lemma expandsI:
  "map_of (simStations w) (qe_stationId current) = Some station \<Longrightarrow>
   lid \<in> set (st_lines station) \<Longrightarrow>
   map_of (simLines w) lid = Some line \<Longrightarrow>
   findIndex (\<lambda>sd. fst sd = st_id station) (stationDistances line) = Some k \<Longrightarrow>
   n \<in> set (take k (stationDistances line)) \<union> set (drop (k + 1) (stationDistances line)) \<Longrightarrow>
   expands w current (nextEntry line lid station k current n)"
  unfolding expands_def by blast

lemma visitNeighbor_queue:
  "set (fst (visitNeighbor line lid station k current n qv))
   \<subseteq> set (fst qv) \<union> {nextEntry line lid station k current n}"
  by (cases qv) (auto simp: visitNeighbor_def nextEntry_def Let_def)

lemma fold_visitNeighbor_queue:
  "set (fst (fold (visitNeighbor line lid station k current) ns qv))
   \<subseteq> set (fst qv) \<union> nextEntry line lid station k current ` set ns"
proof (induction ns arbitrary: qv)
  case Nil
  then show ?case by simp
next
  case (Cons n ns)
  show ?case
    using Cons.IH [of "visitNeighbor line lid station k current n qv"]
      visitNeighbor_queue [of line lid station k current n qv]
    by auto
qed

lemma expandLine_queue:
  assumes "map_of (simStations w) (qe_stationId current) = Some station"
    and "lid \<in> set (st_lines station)"
  shows "set (fst (expandLine w station current lid qv))
         \<subseteq> set (fst qv) \<union> {e. expands w current e}"
proof (cases "map_of (simLines w) lid")
  case None
  then show ?thesis by (simp add: expandLine_def)
next
  case (Some line)
  note line = this
  show ?thesis
  proof (cases "findIndex (\<lambda>sd. fst sd = st_id station) (stationDistances line)")
    case None
    with line show ?thesis by (simp add: expandLine_def)
  next
    case (Some k)
    have "set (fst (fold (visitNeighbor line lid station k current)
                 (rev (take k (stationDistances line)) @ drop (k + 1) (stationDistances line)) qv))
          \<subseteq> set (fst qv) \<union> nextEntry line lid station k current `
               set (rev (take k (stationDistances line)) @ drop (k + 1) (stationDistances line))"
      by (rule fold_visitNeighbor_queue)
    moreover have "nextEntry line lid station k current `
               set (rev (take k (stationDistances line)) @ drop (k + 1) (stationDistances line))
          \<subseteq> {e. expands w current e}"
      using assms line Some by (auto intro!: expandsI)
    ultimately show ?thesis
      using line Some by (simp add: expandLine_def del: fold_append) blast
  qed
qed

lemma fold_expandLine_queue:
  assumes "map_of (simStations w) (qe_stationId current) = Some station"
    and "set lids \<subseteq> set (st_lines station)"
  shows "set (fst (fold (expandLine w station current) lids qv))
         \<subseteq> set (fst qv) \<union> {e. expands w current e}"
  using assms(2)
proof (induction lids arbitrary: qv)
  case Nil
  then show ?case by simp
next
  case (Cons lid lids)
  have "set (fst (expandLine w station current lid qv)) \<subseteq> set (fst qv) \<union> {e. expands w current e}"
    using expandLine_queue [OF assms(1)] Cons.prems by simp
  moreover have "set (fst (fold (expandLine w station current) lids (expandLine w station current lid qv)))
     \<subseteq> set (fst (expandLine w station current lid qv)) \<union> {e. expands w current e}"
    using Cons by simp
  ultimately show ?case by auto
qed

lemma findRouteLoop_invariant:
  assumes "findRouteLoop w dest queue visited = Some r"
    and "\<forall>e \<in> set queue. I e"
    and "\<forall>current e. I current \<longrightarrow> expands w current e \<longrightarrow> I e"
  shows "\<exists>e. I e \<and> qe_stationId e = dest \<and> r = finishRoute e"
  using assms
proof (induction w dest queue visited rule: findRouteLoop.induct)
  case (1 w dest visited)
  then show ?case by simp
next
  case (2 w dest current queue visited)
  have cur: "I current"
    using "2.prems"(2) by simp
  note step = "2.prems"(3)
  show ?case
  proof (cases "qe_stationId current = dest")
    case True
    then have "r = finishRoute current"
      using "2.prems"(1) by simp
    with True cur show ?thesis by blast
  next
    case False
    note notdest = this
    show ?thesis
    proof (cases "map_of (simStations w) (qe_stationId current)")
      case None
      have "findRouteLoop w dest queue visited = Some r"
        using "2.prems"(1) notdest None by simp
      moreover have "\<forall>e \<in> set queue. I e"
        using "2.prems"(2) by simp
      ultimately show ?thesis
        using "2.IH"(1) [OF notdest None] step by blast
    next
      case (Some station)
      define qv where "qv = fold (expandLine w station current) (st_lines station) (queue, visited)"
      have sub: "set (fst qv) \<subseteq> set queue \<union> {e. expands w current e}"
        unfolding qv_def
        using fold_expandLine_queue [OF Some, of "st_lines station" "(queue, visited)"]
        by simp
      have all: "\<forall>e \<in> set (fst qv). I e"
      proof
        fix e
        assume "e \<in> set (fst qv)"
        with sub have "e \<in> set queue \<or> expands w current e" by blast
        then show "I e"
        proof
          assume "e \<in> set queue"
          then show ?thesis using "2.prems"(2) by simp
        next
          assume "expands w current e"
          then show ?thesis using step cur by blast
        qed
      qed
      have "findRouteLoop w dest (fst qv) (snd qv) = Some r"
        using "2.prems"(1) notdest Some by (simp add: qv_def Let_def)
      then show ?thesis
        using "2.IH"(2) [OF notdest Some qv_def] all step by blast
    qed
  qed
qed

lemma findIndex_less: "findIndex P xs = Some k \<Longrightarrow> k < length xs"
  by (induction xs arbitrary: k) (auto split: if_splits option.splits)

lemma findIndex_holds: "findIndex P xs = Some k \<Longrightarrow> P (xs ! k)"
  by (induction xs arbitrary: k) (auto split: if_splits option.splits)

lemma neighbour_two:
  assumes "k < length xs" and "n \<in> set (take k xs) \<union> set (drop (k + 1) xs)"
  shows "2 \<le> length xs"
proof (rule ccontr)
  assume "\<not> 2 \<le> length xs"
  with assms(1) have "length xs = 1" and "k = 0" by auto
  then have "take k xs = []" and "drop (k + 1) xs = []" by auto
  with assms(2) show False by simp
qed

lemma expands_linked: "expands w current e \<Longrightarrow> linked w (qe_stationId current) (qe_stationId e)"
  unfolding expands_def linked_def nextEntry_def by force

lemma expands_path:
  assumes "expands w current e"
  shows "\<exists>leg. qe_path e = qe_path current @ [leg] \<and> served w (lineId leg)"
proof -
  from assms obtain station lid line k n where
    l: "map_of (simLines w) lid = Some line"
    and k: "findIndex (\<lambda>sd. fst sd = st_id station) (stationDistances line) = Some k"
    and n: "n \<in> set (take k (stationDistances line)) \<union> set (drop (k + 1) (stationDistances line))"
    and e: "e = nextEntry line lid station k current n"
    unfolding expands_def by blast
  have "2 \<le> length (stationDistances line)"
    using neighbour_two [OF findIndex_less [OF k] n] .
  then show ?thesis
    using l e by (simp add: nextEntry_def served_def)
qed

lemma findRoute_linked:
  assumes "findRoute w a b = Some r"
  shows "(linked w)\<^sup>*\<^sup>* a b"
proof -
  have "\<exists>e. (linked w)\<^sup>*\<^sup>* a (qe_stationId e) \<and> qe_stationId e = b \<and> r = finishRoute e"
  proof (rule findRouteLoop_invariant [where I = "\<lambda>e. (linked w)\<^sup>*\<^sup>* a (qe_stationId e)"])
    show "findRouteLoop w b [\<lparr>qe_stationId = a, qe_path = [], qe_wait = 0\<rparr>] {a} = Some r"
      using assms by (simp add: findRoute_def)
  next
    show "\<forall>e \<in> set [\<lparr>qe_stationId = a, qe_path = [], qe_wait = 0\<rparr>]. (linked w)\<^sup>*\<^sup>* a (qe_stationId e)"
      by simp
  next
    show "\<forall>current e. (linked w)\<^sup>*\<^sup>* a (qe_stationId current) \<longrightarrow> expands w current e
            \<longrightarrow> (linked w)\<^sup>*\<^sup>* a (qe_stationId e)"
      using expands_linked by (meson rtranclp.rtrancl_into_rtrancl)
  qed
  then show ?thesis by auto
qed

lemma findRoute_served:
  assumes "findRoute w a b = Some r" and "leg \<in> set (legs r)"
  shows "served w (lineId leg)"
proof -
  have "\<exists>e. (\<forall>leg \<in> set (qe_path e). served w (lineId leg)) \<and> qe_stationId e = b \<and> r = finishRoute e"
  proof (rule findRouteLoop_invariant [where I = "\<lambda>e. \<forall>leg \<in> set (qe_path e). served w (lineId leg)"])
    show "findRouteLoop w b [\<lparr>qe_stationId = a, qe_path = [], qe_wait = 0\<rparr>] {a} = Some r"
      using assms by (simp add: findRoute_def)
  next
    show "\<forall>e \<in> set [\<lparr>qe_stationId = a, qe_path = [], qe_wait = 0\<rparr>].
            \<forall>leg \<in> set (qe_path e). served w (lineId leg)"
      by simp
  next
    show "\<forall>current e. (\<forall>leg \<in> set (qe_path current). served w (lineId leg))
            \<longrightarrow> expands w current e \<longrightarrow> (\<forall>leg \<in> set (qe_path e). served w (lineId leg))"
      using expands_path by fastforce
  qed
  then show ?thesis using assms(2) by (auto simp: finishRoute_def Let_def)
qed








section \<open>The two networks, evaluated\<close>

lemma turfDistance_meridian:
  assumes "fst a = fst b" and "\<bar>snd b - snd a\<bar> < 180"
  shows "turfDistance a b = demoLength * \<bar>snd b - snd a\<bar>"
proof -
  define x where "x = ((snd b - snd a) * pi) / 180 / 2"
  have xb: "\<bar>x\<bar> < pi / 2"
  proof -
    have "\<bar>x\<bar> = \<bar>snd b - snd a\<bar> * pi / 360"
      by (simp add: x_def abs_mult)
    also have "\<dots> < 180 * pi / 360"
      using assms(2) by (simp add: divide_strict_right_mono)
    finally show ?thesis by simp
  qed
  have c: "0 < cos x"
    using xb by (intro cos_gt_zero_pi) (auto simp: abs_less_iff)
  have a2: "sqrt (1 - (sin x)\<^sup>2) = cos x"
    using c by (simp add: cos_squared_eq [symmetric])
  have a1: "sqrt ((sin x)\<^sup>2) = \<bar>sin x\<bar>"
    by simp
  have "arctan (\<bar>sin x\<bar> / cos x) = \<bar>x\<bar>"
  proof (cases "0 \<le> x")
    case True
    then have "0 \<le> sin x"
      using xb by (intro sin_ge_zero) (auto simp: abs_less_iff)
    then have "arctan (\<bar>sin x\<bar> / cos x) = arctan (tan x)"
      by (simp add: tan_def)
    also have "\<dots> = x"
      using xb by (intro arctan_tan) (auto simp: abs_less_iff)
    finally show ?thesis using True by simp
  next
    case False
    then have "0 \<le> sin (- x)"
      using xb by (intro sin_ge_zero) (auto simp: abs_less_iff)
    then have "sin x \<le> 0"
      by simp
    then have "arctan (\<bar>sin x\<bar> / cos x) = arctan (tan (- x))"
      by (simp add: tan_def)
    also have "\<dots> = - x"
      using xb by (intro arctan_tan) (auto simp: abs_less_iff)
    finally show ?thesis using False by simp
  qed
  then have at: "atan2 (sqrt ((sin x)\<^sup>2)) (sqrt (1 - (sin x)\<^sup>2)) = \<bar>x\<bar>"
    unfolding a1 a2 using c by (simp add: atan2_def)
  have ax: "\<bar>x\<bar> = \<bar>snd b - snd a\<bar> * pi / 360"
    by (simp add: x_def abs_mult)
  have "turfDistance a b
        = 6371 * (2 * atan2 (sqrt ((sin x)\<^sup>2)) (sqrt (1 - (sin x)\<^sup>2))) * 1000"
    using assms(1) by (simp add: turfDistance_def Let_def x_def)
  also have "\<dots> = 6371 * (2 * (\<bar>snd b - snd a\<bar> * pi / 360)) * 1000"
    unfolding at ax ..
  also have "\<dots> = demoLength * \<bar>snd b - snd a\<bar>"
    by (simp add: demoLength_value)
  finally show ?thesis .
qed

lemmas split_defs = splitWorld_def updateNetwork_def demoLineFeature_def farLineFeature_def
      lonelyLineFeature_def demoStationA_def demoStationB_def demoStationC_def demoStationD_def
      initial_world_def resetSimulation_def addStationToSimulation_def prepareLines_def
      prepareLine_def lineIdentity_def segmentSum_def setAdd_def spawnTrainsForLine_def
      postMessage_def  Let_def upt_rec TRAINS_PER_LINE_def newTrain_def TRAIN_CAPACITY_def
      turfDistance_meridian

lemma splitWorld_simLines: "simLines splitWorld =
   [(IdStr ''L'',
      \<lparr>ln_id = IdStr ''L'', ln_coords = [(0, 0), (0, 1)], ln_length = demoLength,
         stationDistances = [(IdStr ''A'', 0), (IdStr ''B'', demoLength)], headway = 120\<rparr>),
     (IdStr ''M'',
      \<lparr>ln_id = IdStr ''M'', ln_coords = [(0, 2), (0, 3)], ln_length = demoLength,
         stationDistances = [(IdStr ''C'', 0), (IdStr ''D'', demoLength)], headway = 120\<rparr>)]"
  using demoLength_gt by (simp add: split_defs)


lemma splitWorld_simStations: "simStations splitWorld =
   [(IdStr ''A'', \<lparr>st_id = IdStr ''A'', st_coords = (0, 0), st_name = Label ''A'', st_lines = [IdStr ''L'']\<rparr>),
    (IdStr ''B'', \<lparr>st_id = IdStr ''B'', st_coords = (0, 1), st_name = Label ''B'', st_lines = [IdStr ''L'']\<rparr>),
    (IdStr ''C'', \<lparr>st_id = IdStr ''C'', st_coords = (0, 2), st_name = Label ''C'', st_lines = [IdStr ''M'']\<rparr>),
    (IdStr ''D'', \<lparr>st_id = IdStr ''D'', st_coords = (0, 3), st_name = Label ''D'', st_lines = [IdStr ''M'']\<rparr>)]"
  using demoLength_gt by (simp add: split_defs)

lemma splitWorld_linked_closed:
  assumes "linked splitWorld x y" and "x = IdStr ''A'' \<or> x = IdStr ''B''"
  shows "y = IdStr ''A'' \<or> y = IdStr ''B''"
  using assms unfolding linked_def splitWorld_simStations splitWorld_simLines
  by (auto split: if_splits)

lemma splitWorld_no_path: "\<not> (linked splitWorld)\<^sup>*\<^sup>* (IdStr ''A'') (IdStr ''D'')"
proof
  assume "(linked splitWorld)\<^sup>*\<^sup>* (IdStr ''A'') (IdStr ''D'')"
  then have "IdStr ''D'' = IdStr ''A'' \<or> IdStr ''D'' = IdStr ''B''"
  proof (induction rule: rtranclp_induct)
    case base
    then show ?case by simp
  next
    case (step y z)
    then show ?case using splitWorld_linked_closed by blast
  qed
  then show False by simp
qed

lemma splitWorld_nearest:
  "findNearestStation splitWorld (0, 0) = Some \<lparr>st_id = IdStr ''A'', st_coords = (0, 0), st_name = Label ''A'', st_lines = [IdStr ''L'']\<rparr>"
  "findNearestStation splitWorld (0, 3) = Some \<lparr>st_id = IdStr ''D'', st_coords = (0, 3), st_name = Label ''D'', st_lines = [IdStr ''M'']\<rparr>"
  using demoLength_gt
  by (simp_all add: findNearestStation_def splitWorld_simStations nearestStep_def Let_def turfDistance_meridian)



section \<open>Consistency is kept by every message and every tick\<close>

subsection \<open>Routes of waiting and riding passengers\<close>

lemma sameNet_refl: "sameNet w w"
  by (simp add: sameNet_def)

lemma sameNet_trans: "sameNet w w' \<Longrightarrow> sameNet w' w'' \<Longrightarrow> sameNet w w''"
  by (simp add: sameNet_def)

lemma served_cong: "simLines w' = simLines w \<Longrightarrow> served w' lid = served w lid"
  by (simp add: served_def)

lemma routeOK_cong: "simLines w' = simLines w \<Longrightarrow> routeOK w' p = routeOK w p"
  by (simp add: routeOK_def served_def split: option.splits)

lemma ridersOK_cong: "simLines w' = simLines w \<Longrightarrow> ridersOK w' t = ridersOK w t"
  using routeOK_cong [of w' w] by (simp add: ridersOK_def)

lemma update_set: "set (AList.update k v al) \<subseteq> insert (k, v) (set al)"
  by (induction al) auto

lemma list_all_update:
  "list_all P al \<Longrightarrow> P (k, v) \<Longrightarrow> list_all P (AList.update k v al)"
  using update_set [of k v al] by (auto simp: list_all_iff)

lemma map_of_update_keeps:
  "map_of al k' \<noteq> None \<Longrightarrow> map_of (AList.update k v al) k' \<noteq> None"
  by (simp add: update_conv')

lemma map_of_in_set: "map_of al k = Some v \<Longrightarrow> (k, v) \<in> set al"
  by (rule map_of_SomeD)

lemma queuesOK_lookup:
  "queuesOK w \<Longrightarrow> map_of (stationQueues w) k = Some q \<Longrightarrow> list_all (routeOK w) q"
  by (auto simp: queuesOK_def list_all_iff dest!: map_of_SomeD)

text \<open>Writing one queue back.\<close>

lemma setQueue_inv:
  assumes "stationsKeyed w" and "queuesOK w" and "list_all (routeOK w) q"
  shows "stationsKeyed (w\<lparr>stationQueues := AList.update k q (stationQueues w)\<rparr>)"
    and "queuesOK (w\<lparr>stationQueues := AList.update k q (stationQueues w)\<rparr>)"
proof -
  show "stationsKeyed (w\<lparr>stationQueues := AList.update k q (stationQueues w)\<rparr>)"
    using assms(1) by (auto simp: stationsKeyed_def list_all_iff update_conv')
  have "list_all (\<lambda>(k, q). list_all (routeOK w) q) (AList.update k q (stationQueues w))"
    using assms(2,3) by (intro list_all_update) (auto simp: queuesOK_def)
  moreover have "routeOK (w\<lparr>stationQueues := AList.update k q (stationQueues w)\<rparr>) = routeOK w"
    by (intro ext routeOK_cong) simp
  ultimately show "queuesOK (w\<lparr>stationQueues := AList.update k q (stationQueues w)\<rparr>)"
    by (simp add: queuesOK_def)
qed

lemma pushQueue_inv:
  assumes "stationsKeyed w" and "queuesOK w" and "routeOK w p"
    and "map_of (stationQueues w) k \<noteq> None"
  shows "\<exists>w'. pushQueue k p w = Inr w' \<and> sameNet w w' \<and> stationsKeyed w' \<and> queuesOK w'"
proof -
  from assms(4) obtain q where q: "map_of (stationQueues w) k = Some q" by auto
  have "list_all (routeOK w) (q @ [p])"
    using queuesOK_lookup [OF assms(2) q] assms(3) by simp
  then show ?thesis
    using q setQueue_inv [OF assms(1,2), of "q @ [p]" k]
    by (simp add: pushQueue_def sameNet_def)
qed

subsection \<open>Alighting\<close>

lemma inv_cong:
  assumes "stationQueues w' = stationQueues w" and "simStations w' = simStations w"
    and "simLines w' = simLines w"
  shows "stationsKeyed w' = stationsKeyed w" and "queuesOK w' = queuesOK w"
proof -
  show "stationsKeyed w' = stationsKeyed w"
    using assms by (simp add: stationsKeyed_def)
  have "routeOK w' = routeOK w"
    using assms(3) by (intro ext routeOK_cong)
  then show "queuesOK w' = queuesOK w"
    using assms(1) by (simp add: queuesOK_def)
qed

lemma routeDistance_total:
  "list_all (\<lambda>leg. served w (lineId leg)) ls \<Longrightarrow> \<exists>d. routeDistance w ls acc = Inr d"
proof (induction ls arbitrary: acc)
  case Nil
  then show ?case by simp
next
  case (Cons leg ls)
  then obtain line where "map_of (simLines w) (lineId leg) = Some line"
    by (auto simp: served_def)
  then obtain d where "legDistance w leg = Inr d"
    by (simp add: legDistance_def Let_def)
  then show ?case using Cons by simp
qed

lemma alightOne_inv:
  assumes "stationsKeyed w" and "queuesOK w" and "routeOK w p"
    and "map_of (stationQueues w) (st_id station) \<noteq> None"
  shows "\<exists>w'. alightOne station p w = Inr w' \<and> sameNet w w' \<and> stationsKeyed w' \<and> queuesOK w'
            \<and> map_of (stationQueues w') (st_id station) \<noteq> None"
proof (cases "route p")
  case None
  define w' where "w' = w\<lparr> totalPassengerWaitTime := totalPassengerWaitTime w + (simTime w - spawnTime p),
                    completedTrips := completedTrips w + 1,
                    totalRidership := totalRidership w + 1,
                    allPassengers := removeAll (p_id p) (allPassengers w),
                    dailyStationRidership :=
                      bump (destinationStationId p) (bump (originStationId p) (dailyStationRidership w)),
                    totalRevenue := totalRevenue w + (0 / 1000) * FARE_PER_KM \<rparr>"
  have "alightOne station p w = Inr w'"
    using None by (simp add: alightOne_def w'_def Let_def)
  moreover have "sameNet w w'" by (simp add: sameNet_def w'_def)
  moreover have "stationsKeyed w'" "queuesOK w'"
    using assms(1,2) inv_cong [of w' w] by (simp_all add: w'_def)
  moreover have "map_of (stationQueues w') (st_id station) \<noteq> None"
    using assms(4) by (simp add: w'_def)
  ultimately show ?thesis by blast
next
  case (Some r)
  show ?thesis
  proof (cases "currentLegIndex p + 1 \<ge> length (legs r)")
    case True
    define w1 where "w1 = w\<lparr> totalPassengerWaitTime :=
                                 totalPassengerWaitTime w + (simTime w - spawnTime p),
                               completedTrips := completedTrips w + 1,
                               totalRidership := totalRidership w + 1,
                               allPassengers := removeAll (p_id p) (allPassengers w),
                               dailyStationRidership :=
                                 bump (destinationStationId p)
                                   (bump (originStationId p) (dailyStationRidership w)),
                               dailyLineRidership :=
                                 fold (\<lambda>leg. bump (lineId leg)) (legs r) (dailyLineRidership w) \<rparr>"
    have "list_all (\<lambda>leg. served w (lineId leg)) (legs r)"
      using assms(3) Some by (simp add: routeOK_def)
    then have "list_all (\<lambda>leg. served w1 (lineId leg)) (legs r)"
      by (simp add: served_def w1_def)
    then obtain d where d: "routeDistance w1 (legs r) 0 = Inr d"
      using routeDistance_total by blast
    define w' where "w' = w1\<lparr>totalRevenue := totalRevenue w1 + (d / 1000) * FARE_PER_KM\<rparr>"
    have "alightOne station p w = Inr w'"
      using Some True d by (simp add: alightOne_def w'_def w1_def Let_def)
    moreover have "sameNet w w'" by (simp add: sameNet_def w'_def w1_def)
    moreover have "stationsKeyed w'" "queuesOK w'"
      using assms(1,2) inv_cong [of w' w] by (simp_all add: w'_def w1_def)
    moreover have "map_of (stationQueues w') (st_id station) \<noteq> None"
      using assms(4) by (simp add: w'_def w1_def)
    ultimately show ?thesis by blast
  next
    case False
    have ok: "routeOK w (p\<lparr>currentLegIndex := currentLegIndex p + 1\<rparr>)"
      using assms(3) by (simp add: routeOK_def)
    obtain w' where w': "pushQueue (st_id station) (p\<lparr>currentLegIndex := currentLegIndex p + 1\<rparr>) w = Inr w'"
      and consistent: "sameNet w w'" "stationsKeyed w'" "queuesOK w'"
      using pushQueue_inv [OF assms(1,2) ok assms(4)] by blast
    have "map_of (stationQueues w') (st_id station) \<noteq> None"
      using w' assms(4) by (auto simp: pushQueue_def update_conv' split: option.splits)
    moreover have "alightOne station p w = Inr w'"
      using Some False w' by (simp add: alightOne_def Let_def)
    ultimately show ?thesis using consistent by blast
  qed
qed

lemma alightAll_inv:
  assumes "stationsKeyed w" and "queuesOK w" and "list_all (routeOK w) ps"
    and "map_of (stationQueues w) (st_id station) \<noteq> None"
  shows "\<exists>w'. alightAll station ps w = Inr w' \<and> sameNet w w' \<and> stationsKeyed w' \<and> queuesOK w'
            \<and> map_of (stationQueues w') (st_id station) \<noteq> None"
  using assms
proof (induction ps arbitrary: w)
  case Nil
  then show ?case by (simp add: sameNet_refl)
next
  case (Cons p ps)
  obtain w1 where w1: "alightOne station p w = Inr w1" "sameNet w w1" "stationsKeyed w1"
      "queuesOK w1" "map_of (stationQueues w1) (st_id station) \<noteq> None"
    using alightOne_inv [of w p station] Cons.prems by auto
  have "routeOK w1 = routeOK w"
    using w1(2) by (intro ext routeOK_cong) (simp add: sameNet_def)
  then have "list_all (routeOK w1) ps"
    using Cons.prems(3) by simp
  then obtain w' where "alightAll station ps w1 = Inr w'" "sameNet w1 w'" "stationsKeyed w'"
      "queuesOK w'" "map_of (stationQueues w') (st_id station) \<noteq> None"
    using Cons.IH [OF w1(3,4) _ w1(5)] by blast
  then show ?case
    using w1(1,2) sameNet_trans by auto
qed

subsection \<open>Boarding\<close>

lemma findRoute_routeOK:
  "routeOK w (p\<lparr>route := findRoute w a b, currentLegIndex := 0\<rparr>)"
  using findRoute_served [of w a b]
  by (auto simp: routeOK_def list_all_iff split: option.splits)

lemma onLine_cong: "tr_lineId t' = tr_lineId t \<Longrightarrow> onLine t' p = onLine t p"
  by (simp add: onLine_def split: option.splits)

lemma boardStep_inv:
  assumes "routeOK w p" and "boardAcc w train acc"
  shows "boardAcc w train (boardStep w train p acc)"
proof -
  obtain aboard boarding kept where acc: "acc = (aboard, boarding, kept)"
    by (cases acc) auto
  define passenger where
    "passenger = (if route p = None
               then p\<lparr> route := findRoute w (originStationId p) (destinationStationId p),
                       currentLegIndex := 0 \<rparr>
               else p)"
  have ok: "routeOK w passenger"
    using assms(1) findRoute_routeOK by (simp add: passenger_def)
  show ?thesis
  proof (cases "length aboard \<ge> capacity train")
    case True
    then show ?thesis
      using assms acc by (simp add: boardStep_def boardAcc_def)
  next
    case False
    show ?thesis
    proof (cases "legAt passenger")
      case None
      then show ?thesis
        using assms(2) acc False ok
        by (simp add: boardStep_def boardAcc_def passenger_def [symmetric] Let_def)
    next
      case (Some leg)
      then show ?thesis
        using assms(2) acc False ok
        by (simp add: boardStep_def boardAcc_def passenger_def [symmetric] Let_def onLine_def)
    qed
  qed
qed

lemma fold_boardStep_inv:
  "list_all (routeOK w) queue \<Longrightarrow> boardAcc w train acc \<Longrightarrow>
   boardAcc w train (fold (boardStep w train) queue acc)"
  by (induction queue arbitrary: acc) (simp_all add: boardStep_inv)

lemma boardQueue_inv:
  assumes "stationsKeyed w" and "queuesOK w" and "ridersOK w train"
  shows "\<exists>train' boarding w'. boardQueue w station train = (train', boarding, w')
            \<and> sameNet w w' \<and> stationsKeyed w' \<and> queuesOK w' \<and> ridersOK w' train'
            \<and> (\<exists>aboard. train' = train\<lparr>passengers := aboard\<rparr>)"
proof (cases "map_of (stationQueues w) (st_id station)")
  case None
  then show ?thesis
    using assms by (auto simp: boardQueue_def sameNet_refl intro: exI [of _ "passengers train"])
next
  case (Some queue)
  have q: "list_all (routeOK w) queue"
    using queuesOK_lookup [OF assms(2) Some] .
  have "boardAcc w train (passengers train, 0, [])"
    using assms(3) by (simp add: boardAcc_def ridersOK_def)
  then have acc: "boardAcc w train (fold (boardStep w train) queue (passengers train, 0, []))"
    using fold_boardStep_inv [OF q] by blast
  obtain aboard boarding kept where
    f: "fold (boardStep w train) queue (passengers train, 0, []) = (aboard, boarding, kept)"
    by (cases "fold (boardStep w train) queue (passengers train, 0, [])") auto
  define w' where "w' = w\<lparr>stationQueues := AList.update (st_id station) kept (stationQueues w)\<rparr>"
  have a: "list_all (\<lambda>p. routeOK w p \<and> onLine train p) aboard" and k: "list_all (routeOK w) kept"
    using acc f by (simp_all add: boardAcc_def)
  have "boardQueue w station train = (train\<lparr>passengers := aboard\<rparr>, boarding, w')"
    using Some f by (simp add: boardQueue_def w'_def)
  moreover have "sameNet w w'" by (simp add: sameNet_def w'_def)
  moreover have "stationsKeyed w'" "queuesOK w'"
    using setQueue_inv [OF assms(1,2) k] by (simp_all add: w'_def)
  moreover have "ridersOK w' (train\<lparr>passengers := aboard\<rparr>)"
  proof -
    have "routeOK w' = routeOK w"
      by (intro ext routeOK_cong) (simp add: w'_def)
    moreover have "onLine (train\<lparr>passengers := aboard\<rparr>) = onLine train"
      by (intro ext onLine_cong) simp
    ultimately show ?thesis using a by (simp add: ridersOK_def)
  qed
  ultimately show ?thesis by blast
qed

lemma stationsKeyed_lookup:
  assumes "stationsKeyed w" and "map_of (simStations w) k = Some station"
  shows "st_id station = k" and "map_of (stationQueues w) (st_id station) \<noteq> None"
  using assms by (auto simp: stationsKeyed_def list_all_iff dest!: map_of_SomeD)

lemma handleStationArrival_inv:
  assumes "stationsKeyed w" and "queuesOK w" and "ridersOK w train0"
  shows "\<exists>w' t'. handleStationArrival w train0 line sd = Inr (w', t')
            \<and> sameNet w w' \<and> stationsKeyed w' \<and> queuesOK w' \<and> ridersOK w' t'
            \<and> tr_id t' = tr_id train0 \<and> tr_lineId t' = tr_lineId train0
            \<and> direction t' = direction train0 \<and> capacity t' = capacity train0
            \<and> speed t' = 0 \<and> tstate t' = Dwelling \<and> distanceAlongLine t' = snd sd"
proof (cases "map_of (simStations w) (fst sd)")
  case None
  moreover have "onLine (train0\<lparr>speed := 0, tstate := Dwelling, distanceAlongLine := snd sd\<rparr>)
               = onLine train0"
    by (intro ext onLine_cong) simp
  ultimately show ?thesis
    using assms by (simp add: handleStationArrival_def Let_def sameNet_refl ridersOK_def)
next
  case (Some station)
  define train1 where "train1 = train0\<lparr>speed := 0, tstate := Dwelling, distanceAlongLine := snd sd,
      currentStationIndex := (case findIndex (\<lambda>x. fst x = st_id station) (stationDistances line) of
                               None \<Rightarrow> - 1 | Some k \<Rightarrow> int k)\<rparr>"
  define alighting where "alighting = filter (alightsAt station) (passengers train1)"
  define train2 where "train2 = train1\<lparr>passengers :=
       filter (\<lambda>p. route p \<noteq> None \<and> \<not> alightsAt station p) (passengers train1)\<rparr>"
  have riders: "list_all (\<lambda>p. routeOK w p \<and> onLine train0 p) (passengers train0)"
    using assms(3) by (simp add: ridersOK_def)
  have al: "list_all (routeOK w) alighting"
    using riders by (auto simp: alighting_def train1_def list_all_iff)
  have qs: "map_of (stationQueues w) (st_id station) \<noteq> None"
    using stationsKeyed_lookup [OF assms(1) Some] by simp
  obtain w1 where w1: "alightAll station alighting w = Inr w1" "sameNet w w1" "stationsKeyed w1"
      "queuesOK w1"
    using alightAll_inv [OF assms(1,2) al qs] by blast
  have r1: "routeOK w1 = routeOK w"
    using w1(2) by (intro ext routeOK_cong) (simp add: sameNet_def)
  have o2: "onLine train2 = onLine train0"
    by (intro ext onLine_cong) (simp add: train2_def train1_def)
  have "ridersOK w1 train2"
    using riders r1 o2 by (auto simp: ridersOK_def train2_def train1_def list_all_iff)
  then obtain train3 boarding w2 where b: "boardQueue w1 station train2 = (train3, boarding, w2)"
      "sameNet w1 w2" "stationsKeyed w2" "queuesOK w2" "ridersOK w2 train3"
      and "\<exists>aboard. train3 = train2\<lparr>passengers := aboard\<rparr>"
    using boardQueue_inv [OF w1(3,4), of train2 station] by blast
  then obtain aboard where t3: "train3 = train2\<lparr>passengers := aboard\<rparr>" by blast
  define t' where "t' = train3\<lparr>dwellTimeRemaining := extraDwell w2 station
                            (BASE_DWELL_TIME + real (length alighting + boarding) * (25 / 100))\<rparr>"
  have "handleStationArrival w train0 line sd = Inr (w2, t')"
    using Some w1(1) b(1) unfolding t'_def alighting_def train2_def train1_def
    by (simp add: handleStationArrival_def Let_def)
  moreover have "sameNet w w2"
    using w1(2) b(2) sameNet_trans by blast
  moreover have "ridersOK w2 t'"
  proof -
    have "onLine t' = onLine train3"
      by (intro ext onLine_cong) (simp add: t'_def)
    then show ?thesis using b(5) by (simp add: ridersOK_def t'_def)
  qed
  moreover have "tr_id t' = tr_id train0 \<and> tr_lineId t' = tr_lineId train0
            \<and> direction t' = direction train0 \<and> capacity t' = capacity train0
            \<and> speed t' = 0 \<and> tstate t' = Dwelling \<and> distanceAlongLine t' = snd sd"
    by (simp add: t'_def t3 train2_def train1_def)
  ultimately show ?thesis
    using b(3,4) by blast
qed

subsection \<open>One train, one tick\<close>

lemma moveTrain_fields:
  "tr_id (moveTrain w t nx) = tr_id t" "tr_lineId (moveTrain w t nx) = tr_lineId t"
  "passengers (moveTrain w t nx) = passengers t" "capacity (moveTrain w t nx) = capacity t"
  "direction (moveTrain w t nx) = direction t" "tstate (moveTrain w t nx) = tstate t"
  by (simp_all add: moveTrain_def Let_def)

lemma endOfLine_fields:
  "tr_id (endOfLine line t) = tr_id t" "tr_lineId (endOfLine line t) = tr_lineId t"
  "passengers (endOfLine line t) = passengers t" "capacity (endOfLine line t) = capacity t"
  "speed (endOfLine line t) = speed t" "tstate (endOfLine line t) = tstate t"
  by (simp_all add: endOfLine_def)

lemma ridersOK_fields:
  "passengers t' = passengers t \<Longrightarrow> tr_lineId t' = tr_lineId t \<Longrightarrow> ridersOK w t' = ridersOK w t"
  using onLine_cong [of t' t] by (simp add: ridersOK_def)

lemma ridersOK_sameNet: "sameNet w w' \<Longrightarrow> ridersOK w' t = ridersOK w t"
  by (rule ridersOK_cong) (simp add: sameNet_def)

lemma updateTrain_inv:
  assumes "stationsKeyed w" and "queuesOK w" and "ridersOK w train"
  shows "\<exists>w' t' d. updateTrain w train = Inr (w', t', d)
            \<and> sameNet w w' \<and> stationsKeyed w' \<and> queuesOK w' \<and> ridersOK w' t'
            \<and> tr_id t' = tr_id train \<and> tr_lineId t' = tr_lineId train
            \<and> capacity t' = capacity train \<and> stepOK w train t'"
proof (cases "map_of (simLines w) (tr_lineId train)")
  case None
  then show ?thesis using assms by (simp add: updateTrain_def sameNet_refl stepOK_def)
next
  case (Some line)
  note line = this
  show ?thesis
  proof (cases "length (stationDistances line) < 2")
    case True
    then show ?thesis using assms line by (simp add: updateTrain_def sameNet_refl stepOK_def)
  next
    case False
    note long = this
    show ?thesis
    proof (cases "tstate train = Dwelling")
      case True
      define t1 where "t1 = train\<lparr>dwellTimeRemaining := dwellTimeRemaining train - TICK_SECONDS\<rparr>"
      define t' where "t' = (if dwellTimeRemaining t1 \<le> 0
                 then t1\<lparr>tstate := Moving, currentStationIndex := - 1\<rparr> else t1)"
      have "updateTrain w train = Inr (w, t', 0)"
        using line long True unfolding t'_def t1_def by (simp add: updateTrain_def Let_def)
      moreover have "passengers t' = passengers train" "tr_lineId t' = tr_lineId train"
        "tr_id t' = tr_id train" "capacity t' = capacity train"
        by (simp_all add: t'_def t1_def)
      moreover from this have "ridersOK w t'"
        using assms(3) ridersOK_fields by blast
      moreover have "stepOK w train t'"
        using line long True by (simp add: stepOK_def stepShape_def t'_def t1_def)
      ultimately show ?thesis
        using assms(1,2) sameNet_refl by blast
    next
      case False
      note moving = this
      define nx where "nx = getNextStation train line"
      define t2 where "t2 = moveTrain w train nx"
      have r2: "ridersOK w t2"
        using assms(3) ridersOK_fields [of t2 train w] by (simp add: t2_def moveTrain_fields)
      have ut: "updateTrain w train =
          (case (case nx of
                     Some (nextStation, distToNextStation) \<Rightarrow>
                       if distToNextStation \<le> speed t2 * TICK_SECONDS
                       then handleStationArrival w t2 line nextStation
                       else Inr (w, t2)
                   | None \<Rightarrow> Inr (w, t2)) of
               Inl e \<Rightarrow> Inl e
             | Inr (w', t3) \<Rightarrow> Inr (w', endOfLine line t3, speed t2 * TICK_SECONDS))"
        using line long moving unfolding nx_def t2_def by (simp add: updateTrain_def Let_def)
      have "\<exists>w' t3. (case nx of
                     Some (nextStation, distToNextStation) \<Rightarrow>
                       if distToNextStation \<le> speed t2 * TICK_SECONDS
                       then handleStationArrival w t2 line nextStation
                       else Inr (w, t2)
                   | None \<Rightarrow> Inr (w, t2)) = Inr (w', t3)
            \<and> sameNet w w' \<and> stationsKeyed w' \<and> queuesOK w' \<and> ridersOK w' t3
            \<and> tr_id t3 = tr_id t2 \<and> tr_lineId t3 = tr_lineId t2 \<and> capacity t3 = capacity t2
            \<and> direction t3 = direction t2
            \<and> (t3 = t2 \<or> (speed t3 = 0 \<and> tstate t3 = Dwelling))"
      proof (cases nx)
        case None
        then show ?thesis using assms(1,2) r2 by (simp add: sameNet_refl)
      next
        case (Some a)
        obtain nextStation distToNextStation where a: "a = (nextStation, distToNextStation)"
          by (cases a) auto
        show ?thesis
        proof (cases "distToNextStation \<le> speed t2 * TICK_SECONDS")
          case True
          show ?thesis
            using handleStationArrival_inv [OF assms(1,2) r2, of line nextStation] Some a True
            by auto
        next
          case False
          then show ?thesis using assms(1,2) r2 Some a by (simp add: sameNet_refl)
        qed
      qed
      then obtain w' t3 where res: "(case nx of
                     Some (nextStation, distToNextStation) \<Rightarrow>
                       if distToNextStation \<le> speed t2 * TICK_SECONDS
                       then handleStationArrival w t2 line nextStation
                       else Inr (w, t2)
                   | None \<Rightarrow> Inr (w, t2)) = Inr (w', t3)"
        and consistent: "sameNet w w'" "stationsKeyed w'" "queuesOK w'" "ridersOK w' t3"
          "tr_id t3 = tr_id t2" "tr_lineId t3 = tr_lineId t2" "capacity t3 = capacity t2"
        and shape: "direction t3 = direction t2" "t3 = t2 \<or> (speed t3 = 0 \<and> tstate t3 = Dwelling)"
        by blast
      have "updateTrain w train = Inr (w', endOfLine line t3, speed t2 * TICK_SECONDS)"
        unfolding ut res by simp
      moreover have "ridersOK w' (endOfLine line t3)"
        using consistent(4) ridersOK_fields [of "endOfLine line t3" t3 w'] by (simp add: endOfLine_fields)
      moreover have "stepOK w train (endOfLine line t3)"
      proof -
        have "stepShape w line train (endOfLine line t3)"
          unfolding stepShape_def using moving shape
          by (auto simp: t2_def nx_def moveTrain_fields)
        then show ?thesis using line long by (simp add: stepOK_def)
      qed
      ultimately show ?thesis
        using consistent by (simp add: endOfLine_fields t2_def moveTrain_fields)
    qed
  qed
qed

lemma trainStep_sameNet: "sameNet w w1 \<Longrightarrow> trainStep w1 t t' \<Longrightarrow> trainStep w t t'"
  unfolding trainStep_def using sameNet_trans by blast

lemma updateTrainsLoop_inv:
  assumes "stationsKeyed w" and "queuesOK w" and "list_all (ridersOK w) ts"
  shows "\<exists>w' ts' d. updateTrainsLoop ts w acc d0 = Inr (w', acc @ ts', d)
            \<and> sameNet w w' \<and> stationsKeyed w' \<and> queuesOK w' \<and> list_all (ridersOK w') ts'
            \<and> list_all2 (trainStep w) ts ts'"
  using assms
proof (induction ts arbitrary: w acc d0)
  case Nil
  then show ?case by (simp add: sameNet_refl)
next
  case (Cons t ts)
  obtain w1 t' d where u: "updateTrain w t = Inr (w1, t', d)"
    and consistent: "sameNet w w1" "stationsKeyed w1" "queuesOK w1" "ridersOK w1 t'"
    and st: "tr_id t' = tr_id t" "tr_lineId t' = tr_lineId t" "capacity t' = capacity t"
      "stepOK w t t'"
    using updateTrain_inv [of w t] Cons.prems by auto
  have "list_all (ridersOK w1) ts"
    using Cons.prems(3) ridersOK_sameNet [OF consistent(1)] by (simp add: list_all_iff)
  then obtain w' ts' d' where
    l: "updateTrainsLoop ts w1 (acc @ [t']) (d0 + d) = Inr (w', (acc @ [t']) @ ts', d')"
    and consistent': "sameNet w1 w'" "stationsKeyed w'" "queuesOK w'" "list_all (ridersOK w') ts'"
    and step: "list_all2 (trainStep w1) ts ts'"
    using Cons.IH [OF consistent(2,3), of "acc @ [t']" "d0 + d"] by blast
  have step': "list_all2 (trainStep w) ts ts'"
    using step trainStep_sameNet [OF consistent(1)] by (auto elim!: list_all2_mono)
  have first: "trainStep w t t'"
    using st sameNet_refl unfolding trainStep_def by blast
  have r: "ridersOK w' t'"
    using consistent(4) ridersOK_sameNet [OF consistent'(1)] by simp
  have "updateTrainsLoop (t # ts) w acc d0 = Inr (w', acc @ (t' # ts'), d')"
    using u l by simp
  moreover have "sameNet w w'"
    using consistent(1) consistent'(1) sameNet_trans by blast
  moreover have "list_all (ridersOK w') (t' # ts')"
    using r consistent'(4) by simp
  moreover have "list_all2 (trainStep w) (t # ts) (t' # ts')"
    using first step' by simp
  ultimately show ?case
    using consistent'(2,3) by blast
qed

subsection \<open>Trains on their lines; passengers entering the network\<close>

lemma placed_cong: "simLines w' = simLines w \<Longrightarrow> placed w' t = placed w t"
  by (simp add: placed_def)

lemma endOfLine_range:
  "0 \<le> ln_length line \<Longrightarrow>
   0 \<le> distanceAlongLine (endOfLine line t) \<and> distanceAlongLine (endOfLine line t) \<le> ln_length line"
  by (simp add: endOfLine_def)

lemma stepOK_placed:
  assumes "stepOK w t t'" and "placed w t" and "tr_lineId t' = tr_lineId t"
  shows "placed w t'"
proof -
  from assms(2) obtain line where line: "map_of (simLines w) (tr_lineId t) = Some line"
    and long: "2 \<le> length (stationDistances line)"
    and dw: "tstate t = Dwelling \<longrightarrow> speed t = 0"
    and rng: "0 \<le> ln_length line \<longrightarrow>
             0 \<le> distanceAlongLine t \<and> distanceAlongLine t \<le> ln_length line"
    by (auto simp: placed_def split: option.splits)
  have shape: "stepShape w line t t'"
    using assms(1) line long by (simp add: stepOK_def)
  show ?thesis
  proof (cases "tstate t = Dwelling")
    case True
    then have "distanceAlongLine t' = distanceAlongLine t" "speed t' = speed t"
      using shape by (simp_all add: stepShape_def)
    then show ?thesis
      using line long dw rng True assms(3) by (simp add: placed_def)
  next
    case False
    then obtain t3 where t3: "t' = endOfLine line t3"
      and alt: "t3 = moveTrain w t (getNextStation t line) \<or> (speed t3 = 0 \<and> tstate t3 = Dwelling)"
      using shape by (auto simp: stepShape_def)
    have "tstate t' = Dwelling \<longrightarrow> speed t' = 0"
      using alt False by (auto simp: t3 endOfLine_fields moveTrain_fields)
    then show ?thesis
      using line long assms(3) endOfLine_range [of line t3] by (simp add: placed_def t3)
  qed
qed

lemma trainStep_placed:
  assumes "trainStep w t t'" and "placed w t"
  shows "placed w t'"
proof -
  from assms(1) obtain wa where wa: "sameNet w wa" "stepOK wa t t'" and l: "tr_lineId t' = tr_lineId t"
    by (auto simp: trainStep_def)
  have eq: "simLines wa = simLines w"
    using wa(1) by (simp add: sameNet_def)
  have "placed wa t" using assms(2) placed_cong [OF eq] by simp
  then have "placed wa t'" using stepOK_placed [OF wa(2) _ l] by simp
  then show ?thesis using placed_cong [OF eq] by simp
qed

lemma list_all2_placed:
  "list_all2 (trainStep w) ts ts' \<Longrightarrow> list_all (placed w) ts \<Longrightarrow> list_all (placed w) ts'"
  by (induction rule: list_all2_induct) (auto intro: trainStep_placed)

text \<open>Spawning passengers.\<close>

lemma nearest_member:
  "fold (nearestStep c) ss best = Some (st, d) \<Longrightarrow>
   st \<in> set ss \<or> best = Some (st, d)"
proof (induction ss arbitrary: best)
  case Nil
  then show ?case by simp
next
  case (Cons s ss)
  from Cons.IH [OF Cons.prems [simplified]] show ?case
    by (auto simp: nearestStep_def Let_def split: if_splits)
qed

lemma findNearestStation_member:
  "findNearestStation w c = Some st \<Longrightarrow> st \<in> snd ` set (simStations w)"
  using nearest_member [of c "map snd (simStations w)" None st]
  by (auto simp: findNearestStation_def)

lemma stationsKeyed_member:
  "stationsKeyed w \<Longrightarrow> st \<in> snd ` set (simStations w) \<Longrightarrow>
   map_of (stationQueues w) (st_id st) \<noteq> None"
  by (auto simp: stationsKeyed_def list_all_iff)

lemma random_frame:
  "random w = (r, w') \<Longrightarrow> w' = w\<lparr>randUsed := randUsed w + 1\<rparr>"
  by (auto simp: random_def)

lemma enqueuePassenger_inv:
  assumes "stationsKeyed w" and "queuesOK w" and "originStation \<in> snd ` set (simStations w)"
  shows "\<exists>w'. enqueuePassenger originStation destStation w = Inr w' \<and> sameNet w w'
            \<and> stationsKeyed w' \<and> queuesOK w'"
proof -
  define w3 where "w3 = w\<lparr> nextPassengerId := nextPassengerId w + 1,
                 allPassengers := setAdd (nextPassengerId w) (allPassengers w) \<rparr>"
  have k3: "stationsKeyed w3" "queuesOK w3"
    using assms(1,2) inv_cong [of w3 w] by (simp_all add: w3_def)
  have s3: "sameNet w w3" by (simp add: sameNet_def w3_def)
  have q: "map_of (stationQueues w3) (st_id originStation) \<noteq> None"
    using stationsKeyed_member [OF assms(1,3)] by (simp add: w3_def)
  have ok: "routeOK w3 \<lparr> p_id = nextPassengerId w, originStationId = st_id originStation,
              destinationStationId = st_id destStation, route = None, currentLegIndex = 0,
              spawnTime = simTime w \<rparr>"
    by (simp add: routeOK_def)
  show ?thesis
    using pushQueue_inv [OF k3 ok q] s3 sameNet_trans
    unfolding w3_def enqueuePassenger_def Let_def by (simp) blast
qed

lemma spawnOne_inv:
  assumes "stationsKeyed w" and "queuesOK w"
  shows "\<exists>w'. spawnOne features w = Inr w' \<and> sameNet w w' \<and> stationsKeyed w' \<and> queuesOK w'"
proof -
  define w2 where "w2 = w\<lparr>randUsed := randUsed w + 1 + 1\<rparr>"
  have k2: "stationsKeyed w2" "queuesOK w2"
    using assms inv_cong [of w2 w] by (simp_all add: w2_def)
  have s2: "sameNet w w2" by (simp add: sameNet_def w2_def)
  have stay: "\<exists>w'. Inr w2 = (Inr w' :: error + world) \<and> sameNet w w' \<and> stationsKeyed w' \<and> queuesOK w'"
    using k2 s2 by blast
  have go: "\<exists>w'. enqueuePassenger sa sb w2 = Inr w' \<and> sameNet w w' \<and> stationsKeyed w' \<and> queuesOK w'"
    if "findNearestStation w2 c = Some sa" for sa sb c
    using enqueuePassenger_inv [OF k2 findNearestStation_member [OF that], of sb] s2 sameNet_trans
    by blast
  show ?thesis
    using stay go unfolding w2_def
    by (simp add: spawnOne_def random_def Let_def split: option.splits prod.splits)
qed

lemma spawnLoop_inv:
  assumes "stationsKeyed w" and "queuesOK w"
  shows "\<exists>w'. spawnLoop features n w = Inr w' \<and> sameNet w w' \<and> stationsKeyed w' \<and> queuesOK w'"
  using assms
proof (induction n arbitrary: w)
  case 0
  then show ?case by (simp add: sameNet_refl)
next
  case (Suc n)
  obtain w1 where w1: "spawnOne features w = Inr w1" "sameNet w w1" "stationsKeyed w1" "queuesOK w1"
    using spawnOne_inv [OF Suc.prems] by blast
  obtain w' where "spawnLoop features n w1 = Inr w'" "sameNet w1 w'" "stationsKeyed w'" "queuesOK w'"
    using Suc.IH [OF w1(3,4)] by blast
  then show ?case using w1(1,2) sameNet_trans by auto
qed

lemma spawnPassengers_inv:
  assumes "stationsKeyed w" and "queuesOK w"
  shows "\<exists>w'. spawnPassengers hour w = Inr w' \<and> sameNet w w' \<and> stationsKeyed w' \<and> queuesOK w'"
  using assms spawnLoop_inv [OF assms]
  by (auto simp: spawnPassengers_def Let_def sameNet_refl split: option.splits)

subsection \<open>Incidents: expiry and creation\<close>

text \<open>Incidents.\<close>

lemma cleanupStep_eq:
  "cleanupStep x w =
    (if expiresAt x \<le> simTime w
     then w\<lparr>outbox := outbox w @ [INCIDENT_EVENT x False],
            activeIncidents := filter (\<lambda>p. fst p \<noteq> inc_id x) (activeIncidents w)\<rparr>
     else w)"
proof -
  have "AList.delete (inc_id x) (activeIncidents w)
        = filter (\<lambda>p. fst p \<noteq> inc_id x) (activeIncidents w)"
    unfolding AList.delete_eq by (intro filter_cong) auto
  then show ?thesis
    by (simp add: cleanupStep_def postMessage_def)
qed

lemma fold_cleanupStep:
  "fold cleanupStep xs w =
    w\<lparr>outbox := outbox w @ map (\<lambda>i. INCIDENT_EVENT i False)
                              (filter (\<lambda>i. expiresAt i \<le> simTime w) xs),
       activeIncidents :=
         filter (\<lambda>p. fst p \<notin> inc_id ` {i \<in> set xs. expiresAt i \<le> simTime w})
                (activeIncidents w)\<rparr>"
proof (induction xs arbitrary: w)
  case Nil
  then show ?case by simp
next
  case (Cons x xs)
  show ?case
  proof (cases "expiresAt x \<le> simTime w")
    case True
    have "filter (\<lambda>p. fst p \<notin> inc_id ` {i \<in> set xs. expiresAt i \<le> simTime w})
            (filter (\<lambda>p. fst p \<noteq> inc_id x) (activeIncidents w))
          = filter (\<lambda>p. fst p \<notin> inc_id ` {i \<in> set (x # xs). expiresAt i \<le> simTime w})
            (activeIncidents w)"
      using True by (auto intro: filter_cong)
    moreover have "cleanupStep x w = w\<lparr>outbox := outbox w @ [INCIDENT_EVENT x False],
            activeIncidents := filter (\<lambda>p. fst p \<noteq> inc_id x) (activeIncidents w)\<rparr>"
      using True cleanupStep_eq [of x w] by simp
    ultimately show ?thesis
      using True by (simp add: Cons.IH)
  next
    case False
    have "{i \<in> set (x # xs). expiresAt i \<le> simTime w} = {i \<in> set xs. expiresAt i \<le> simTime w}"
      using False by auto
    moreover have "cleanupStep x w = w"
      using False cleanupStep_eq [of x w] by simp
    ultimately show ?thesis
      using False by (simp add: Cons.IH)
  qed
qed

lemma cleanupIncidents_eq:
  assumes "incidentsTable w"
  shows "cleanupIncidents w =
    w\<lparr>outbox := outbox w @ map (\<lambda>i. INCIDENT_EVENT i False)
                              (filter (\<lambda>i. expiresAt i \<le> simTime w) (map snd (activeIncidents w))),
       activeIncidents := filter (\<lambda>p. simTime w < expiresAt (snd p)) (activeIncidents w)\<rparr>"
proof -
  have d: "distinct (map fst (activeIncidents w))"
    and k: "\<And>p. p \<in> set (activeIncidents w) \<Longrightarrow> inc_id (snd p) = fst p"
    using assms by (auto simp: incidentsTable_def list_all_iff)
  have "fst p \<notin> inc_id ` {i \<in> set (map snd (activeIncidents w)). expiresAt i \<le> simTime w}
        \<longleftrightarrow> simTime w < expiresAt (snd p)"
    if p: "p \<in> set (activeIncidents w)" for p
  proof
    assume a: "fst p \<notin> inc_id ` {i \<in> set (map snd (activeIncidents w)). expiresAt i \<le> simTime w}"
    show "simTime w < expiresAt (snd p)"
    proof (rule ccontr)
      assume "\<not> simTime w < expiresAt (snd p)"
      then have "snd p \<in> {i \<in> set (map snd (activeIncidents w)). expiresAt i \<le> simTime w}"
        using p by auto
      then have "inc_id (snd p) \<in> inc_id ` {i \<in> set (map snd (activeIncidents w)). expiresAt i \<le> simTime w}"
        by (rule imageI)
      with a k [OF p] show False by simp
    qed
  next
    assume f: "simTime w < expiresAt (snd p)"
    show "fst p \<notin> inc_id ` {i \<in> set (map snd (activeIncidents w)). expiresAt i \<le> simTime w}"
    proof
      assume "fst p \<in> inc_id ` {i \<in> set (map snd (activeIncidents w)). expiresAt i \<le> simTime w}"
      then obtain q where q: "q \<in> set (activeIncidents w)" "expiresAt (snd q) \<le> simTime w"
        "fst p = inc_id (snd q)"
        by auto
      then have "fst q = fst p" using k [OF q(1)] by simp
      then have "q = p"
        using d p q(1) by (cases p, cases q) (auto dest: eq_key_imp_eq_value)
      with q(2) f show False by simp
    qed
  qed
  then have "filter (\<lambda>p. fst p \<notin> inc_id ` {i \<in> set (map snd (activeIncidents w)). expiresAt i \<le> simTime w})
                (activeIncidents w)
             = filter (\<lambda>p. simTime w < expiresAt (snd p)) (activeIncidents w)"
    by (intro filter_cong) auto
  then show ?thesis
    by (simp add: cleanupIncidents_def fold_cleanupStep)
qed

lemma checkForIncidents_shape:
  "\<exists>a b c ob. checkForIncidents w =
      w\<lparr>lastIncidentKm := a, nextIncidentId := b, randUsed := c, outbox := outbox w @ ob\<rparr>
      \<and> nextIncidentId w \<le> b
   \<or> (\<exists>i. freshIncident w i \<and> checkForIncidents w =
      w\<lparr>lastIncidentKm := a, nextIncidentId := nextIncidentId w + 1, randUsed := c,
        activeIncidents := AList.update (nextIncidentId w) i (activeIncidents w),
        outbox := outbox w @ [INCIDENT_EVENT i True]\<rparr>)"
proof (cases "totalTrainKm w - lastIncidentKm w < 10000 / max INCIDENT_RATE_PER_10K_KM (1 / 100)")
  case True
  have "checkForIncidents w = w\<lparr>lastIncidentKm := lastIncidentKm w, nextIncidentId := nextIncidentId w,
      randUsed := randUsed w, outbox := outbox w @ []\<rparr>"
    using True by (simp add: checkForIncidents_def)
  then show ?thesis by (metis order_refl)
next
  case False
  show ?thesis
  proof (cases "rand w (randUsed w) < 1 / 2")
    case True
    note half = this
    show ?thesis
    proof (cases "at_index (trains w) \<lfloor>rand w (randUsed w + 1) * real (length (trains w))\<rfloor>")
      case None
      have "checkForIncidents w = w\<lparr>lastIncidentKm := totalTrainKm w,
          nextIncidentId := nextIncidentId w + 1, randUsed := randUsed w + 1 + 1,
          outbox := outbox w @ []\<rparr>"
        using False half None by (simp add: checkForIncidents_def random_def Let_def)
      then show ?thesis by (metis le_add1)
    next
      case (Some randomTrain)
      define i where "i = \<lparr> inc_id = nextIncidentId w, inc_type = speed_cap,
                               message = SpeedRestrictionOnTrain (tr_id randomTrain),
                               targetId = IdNum (int (tr_id randomTrain)),
                               expiresAt = simTime w + 1800,
                               inc_value = MAX_TRAIN_SPEED * (6 / 10) \<rparr>"
      have "freshIncident w i"
        by (simp add: freshIncident_def i_def MAX_TRAIN_SPEED_def)
      moreover have "checkForIncidents w = w\<lparr>lastIncidentKm := totalTrainKm w,
          nextIncidentId := nextIncidentId w + 1, randUsed := randUsed w + 1 + 1,
          activeIncidents := AList.update (nextIncidentId w) i (activeIncidents w),
          outbox := outbox w @ [INCIDENT_EVENT i True]\<rparr>"
        using False half Some unfolding i_def
        by (simp add: checkForIncidents_def random_def Let_def postMessage_def)
      ultimately show ?thesis by blast
    qed
  next
    case False
    note half = this
    show ?thesis
    proof (cases "at_index (map snd (simStations w))
                    \<lfloor>rand w (randUsed w + 1) * real (length (map snd (simStations w)))\<rfloor>")
      case None
      have "checkForIncidents w = w\<lparr>lastIncidentKm := totalTrainKm w,
          nextIncidentId := nextIncidentId w + 1, randUsed := randUsed w + 1 + 1,
          outbox := outbox w @ []\<rparr>"
        using \<open>\<not> totalTrainKm w - lastIncidentKm w < 10000 / max INCIDENT_RATE_PER_10K_KM (1 / 100)\<close>
          half None by (simp add: checkForIncidents_def random_def Let_def)
      then show ?thesis by (metis le_add1)
    next
      case (Some randomStation)
      define i where "i = \<lparr> inc_id = nextIncidentId w, inc_type = extra_dwell,
                               message = DelaysAt (st_name randomStation),
                               targetId = st_id randomStation,
                               expiresAt = simTime w + 1200,
                               inc_value = 15 \<rparr>"
      have "freshIncident w i"
        by (simp add: freshIncident_def i_def)
      moreover have "checkForIncidents w = w\<lparr>lastIncidentKm := totalTrainKm w,
          nextIncidentId := nextIncidentId w + 1, randUsed := randUsed w + 1 + 1,
          activeIncidents := AList.update (nextIncidentId w) i (activeIncidents w),
          outbox := outbox w @ [INCIDENT_EVENT i True]\<rparr>"
        using \<open>\<not> totalTrainKm w - lastIncidentKm w < 10000 / max INCIDENT_RATE_PER_10K_KM (1 / 100)\<close>
          half Some unfolding i_def
        by (simp add: checkForIncidents_def random_def Let_def postMessage_def)
      ultimately show ?thesis by blast
    qed
  qed
qed

subsection \<open>The stages of a tick\<close>

lemma updateEconomics_frame:
  "\<exists>a b c. updateEconomics w = w\<lparr>totalOpex := a, cashflowPerHour := b, budget := c\<rparr>"
  by (simp add: updateEconomics_def Let_def) blast

lemma updateTrains_inv:
  assumes "stationsKeyed w" and "queuesOK w" and "list_all (ridersOK w) (trains w)"
  shows "\<exists>wL ts' km. updateTrains w = Inr (wL\<lparr>trains := ts', totalTrainKm := km\<rparr>)
            \<and> sameNet w wL \<and> stationsKeyed wL \<and> queuesOK wL \<and> list_all (ridersOK wL) ts'
            \<and> list_all2 (trainStep w) (trains w) ts'"
proof -
  obtain wL ts' d where l: "updateTrainsLoop (trains w) w [] 0 = Inr (wL, [] @ ts', d)"
    and i: "sameNet w wL" "stationsKeyed wL" "queuesOK wL" "list_all (ridersOK wL) ts'"
      "list_all2 (trainStep w) (trains w) ts'"
    using updateTrainsLoop_inv [OF assms, of "[]" 0] by blast
  have "updateTrains w = Inr (wL\<lparr>trains := ts', totalTrainKm := totalTrainKm wL + d / 1000\<rparr>)"
    using l by (simp add: updateTrains_def)
  then show ?thesis using i by blast
qed

lemma incidentsTable_update:
  assumes "incidentsTable w" and "freshIncident w i"
  shows "distinct (map fst (AList.update (nextIncidentId w) i (activeIncidents w)))"
    and "list_all (\<lambda>(k, i). inc_id i = k \<and> k < nextIncidentId w + 1 \<and> 0 \<le> inc_value i)
           (AList.update (nextIncidentId w) i (activeIncidents w))"
proof -
  show "distinct (map fst (AList.update (nextIncidentId w) i (activeIncidents w)))"
    using assms(1) by (simp add: incidentsTable_def distinct_update)
  have "list_all (\<lambda>(k, i). inc_id i = k \<and> k < nextIncidentId w + 1 \<and> 0 \<le> inc_value i)
          (activeIncidents w)"
    using assms(1) by (auto simp: incidentsTable_def list_all_iff)
  then show "list_all (\<lambda>(k, i). inc_id i = k \<and> k < nextIncidentId w + 1 \<and> 0 \<le> inc_value i)
           (AList.update (nextIncidentId w) i (activeIncidents w))"
    using assms(2) by (intro list_all_update) (auto simp: freshIncident_def)
qed

lemma update_keeps_others:
  "p \<in> set al \<Longrightarrow> fst p \<noteq> k \<Longrightarrow> p \<in> set (AList.update k v al)"
  by (induction al) auto

text \<open>
  The incident table after \<open>checkForIncidents\<close>: still a table, every old entry still
  there, and every new entry expires later than now.
\<close>

lemma checkForIncidents_inv:
  assumes "incidentsTable w"
  shows "incidentsTable (checkForIncidents w)"
    and "set (activeIncidents w) \<subseteq> set (activeIncidents (checkForIncidents w))"
    and "\<forall>p \<in> set (activeIncidents (checkForIncidents w)).
            p \<in> set (activeIncidents w) \<or> simTime w < expiresAt (snd p)"
    and "stationQueues (checkForIncidents w) = stationQueues w"
    and "simStations (checkForIncidents w) = simStations w"
    and "simLines (checkForIncidents w) = simLines w"
    and "trains (checkForIncidents w) = trains w"
    and "simTime (checkForIncidents w) = simTime w"
    and "simulationInterval (checkForIncidents w) = simulationInterval w"
    and "running (checkForIncidents w) = running w"
proof -
  have old: "\<And>p. p \<in> set (activeIncidents w) \<Longrightarrow> fst p \<noteq> nextIncidentId w"
    using assms by (auto simp: incidentsTable_def list_all_iff)
  consider (same) a b c ob where "checkForIncidents w =
      w\<lparr>lastIncidentKm := a, nextIncidentId := b, randUsed := c, outbox := outbox w @ ob\<rparr>"
      "nextIncidentId w \<le> b"
    | (new) a c i where "freshIncident w i" "checkForIncidents w =
      w\<lparr>lastIncidentKm := a, nextIncidentId := nextIncidentId w + 1, randUsed := c,
        activeIncidents := AList.update (nextIncidentId w) i (activeIncidents w),
        outbox := outbox w @ [INCIDENT_EVENT i True]\<rparr>"
    using checkForIncidents_shape [of w] by blast
  then have "incidentsTable (checkForIncidents w)
    \<and> set (activeIncidents w) \<subseteq> set (activeIncidents (checkForIncidents w))
    \<and> (\<forall>p \<in> set (activeIncidents (checkForIncidents w)).
            p \<in> set (activeIncidents w) \<or> simTime w < expiresAt (snd p))
    \<and> stationQueues (checkForIncidents w) = stationQueues w
    \<and> simStations (checkForIncidents w) = simStations w
    \<and> simLines (checkForIncidents w) = simLines w
    \<and> trains (checkForIncidents w) = trains w
    \<and> simTime (checkForIncidents w) = simTime w
    \<and> simulationInterval (checkForIncidents w) = simulationInterval w
    \<and> running (checkForIncidents w) = running w"
  proof cases
    case same
    have "incidentsTable (checkForIncidents w)"
      using assms same(2) unfolding same(1) by (auto simp: incidentsTable_def list_all_iff)
    then show ?thesis unfolding same(1) by simp
  next
    case new
    have "incidentsTable (checkForIncidents w)"
      using incidentsTable_update [OF assms new(1)] unfolding new(2)
      by (simp add: incidentsTable_def)
    moreover have "set (activeIncidents w) \<subseteq> set (activeIncidents (checkForIncidents w))"
      unfolding new(2) using old update_keeps_others by fastforce
    moreover have "\<forall>p \<in> set (activeIncidents (checkForIncidents w)).
            p \<in> set (activeIncidents w) \<or> simTime w < expiresAt (snd p)"
      unfolding new(2) using update_set [of "nextIncidentId w" i "activeIncidents w"] new(1)
      by (auto simp: freshIncident_def)
    ultimately show ?thesis unfolding new(2) by simp
  qed
  then show "incidentsTable (checkForIncidents w)"
    and "set (activeIncidents w) \<subseteq> set (activeIncidents (checkForIncidents w))"
    and "\<forall>p \<in> set (activeIncidents (checkForIncidents w)).
            p \<in> set (activeIncidents w) \<or> simTime w < expiresAt (snd p)"
    and "stationQueues (checkForIncidents w) = stationQueues w"
    and "simStations (checkForIncidents w) = simStations w"
    and "simLines (checkForIncidents w) = simLines w"
    and "trains (checkForIncidents w) = trains w"
    and "simTime (checkForIncidents w) = simTime w"
    and "simulationInterval (checkForIncidents w) = simulationInterval w"
    and "running (checkForIncidents w) = running w"
    by simp_all
qed

lemma checkForIncidents_outbox: "\<exists>ob. outbox (checkForIncidents w) = outbox w @ ob"
  using checkForIncidents_shape [of w] by (elim exE disjE conjE) simp_all

subsection \<open>The tick\<close>

lemma core_cong:
  assumes "stationQueues w' = stationQueues w" and "simStations w' = simStations w"
    and "simLines w' = simLines w"
  shows "stationsKeyed w' = stationsKeyed w" and "queuesOK w' = queuesOK w"
    and "ridersOK w' = ridersOK w" and "placed w' = placed w" and "linesOK w' = linesOK w"
proof -
  show "stationsKeyed w' = stationsKeyed w" "queuesOK w' = queuesOK w"
    using inv_cong [OF assms] by simp_all
  show "ridersOK w' = ridersOK w"
    using assms(3) by (intro ext ridersOK_cong)
  show "placed w' = placed w"
    using assms(3) by (intro ext placed_cong)
  show "linesOK w' = linesOK w"
    using assms(3) by (simp add: linesOK_def)
qed

lemma tick_inv:
  assumes "consistent w"
  shows "\<exists>w' new. simulationTick w = Inr w' \<and> consistent w'
            \<and> list_all2 (trainStep (midTick w)) (trains w) (trains w')
            \<and> simLines w' = simLines w \<and> simStations w' = simStations w
            \<and> simTime w' = simTime w + TICK_SECONDS
            \<and> simulationInterval w' = simulationInterval w \<and> running w' = running w
            \<and> outbox w' = outbox w @ new
            \<and> (\<forall>p \<in> set (activeIncidents w).
                  if expiresAt (snd p) \<le> simTime w'
                  then p \<notin> set (activeIncidents w') \<and> INCIDENT_EVENT (snd p) False \<in> set new
                  else p \<in> set (activeIncidents w'))"
proof -
  have i: "stationsKeyed w" "queuesOK w" "list_all (ridersOK w) (trains w)"
    "list_all (placed w) (trains w)" "linesOK w" "incidentsTable w" "incidentsFresh w"
    using assms by (simp_all add: consistent_def)
  define w1 where "w1 = w\<lparr>simTime := simTime w + TICK_SECONDS\<rparr>"
  define w2 where "w2 = (if \<lfloor>simTime w1 / 86400\<rfloor> > \<lfloor>lastDayRollover w1 / 86400\<rfloor>
               then w1\<lparr> dailyStationRidership := [], dailyLineRidership := [],
                        lastDayRollover := simTime w1 \<rparr>
               else w1)"
  define hour where "hour = \<lfloor>js_rem (simTime w1) 86400 / 3600\<rfloor>"
  have c2: "stationQueues w2 = stationQueues w" "simStations w2 = simStations w"
    "simLines w2 = simLines w" "trains w2 = trains w" "activeIncidents w2 = activeIncidents w"
    "simTime w2 = simTime w + TICK_SECONDS" "nextIncidentId w2 = nextIncidentId w"
    "simulationInterval w2 = simulationInterval w" "running w2 = running w"
    by (simp_all add: w2_def w1_def)
  have s2: "sameNet (midTick w) w2"
    by (simp add: sameNet_def midTick_def w2_def w1_def)
  have k2: "stationsKeyed w2" "queuesOK w2"
    using i(1,2) core_cong [OF c2(1,2,3)] by simp_all
  obtain w3 where w3: "spawnPassengers hour w2 = Inr w3" "sameNet w2 w3" "stationsKeyed w3"
      "queuesOK w3"
    using spawnPassengers_inv [OF k2] by blast
  have s3: "sameNet (midTick w) w3"
    using s2 w3(2) sameNet_trans by blast
  have l3: "simLines w3 = simLines w" "trains w3 = trains w"
    using s3 by (simp_all add: sameNet_def midTick_def)
  have r3: "list_all (ridersOK w3) (trains w3)"
    using i(3) ridersOK_cong [OF l3(1)] l3(2) by (simp add: list_all_iff)
  obtain wL ts' km where u: "updateTrains w3 = Inr (wL\<lparr>trains := ts', totalTrainKm := km\<rparr>)"
    and iL: "sameNet w3 wL" "stationsKeyed wL" "queuesOK wL" "list_all (ridersOK wL) ts'"
      "list_all2 (trainStep w3) (trains w3) ts'"
    using updateTrains_inv [OF w3(3,4) r3] by blast
  define w4 where "w4 = wL\<lparr>trains := ts', totalTrainKm := km\<rparr>"
  have sL: "sameNet (midTick w) wL"
    using s3 iL(1) sameNet_trans by blast
  have steps: "list_all2 (trainStep (midTick w)) (trains w) ts'"
    using iL(5) trainStep_sameNet [OF s3] l3(2) by (auto elim!: list_all2_mono)
  obtain a b c where e: "updateEconomics w4 = w4\<lparr>totalOpex := a, cashflowPerHour := b, budget := c\<rparr>"
    using updateEconomics_frame by blast
  define wE where "wE = w4\<lparr>totalOpex := a, cashflowPerHour := b, budget := c\<rparr>"
  have cE: "stationQueues wE = stationQueues wL" "simStations wE = simStations w"
    "simLines wE = simLines w" "trains wE = ts'" "activeIncidents wE = activeIncidents w"
    "simTime wE = simTime w + TICK_SECONDS" "nextIncidentId wE = nextIncidentId w"
    "simulationInterval wE = simulationInterval w" "running wE = running w"
    using sL by (simp_all add: wE_def w4_def sameNet_def midTick_def)
  have tE: "incidentsTable wE"
    using i(6) cE(5,7) by (simp add: incidentsTable_def)
  define wC where "wC = checkForIncidents wE"
  note chk = checkForIncidents_inv [OF tE, folded wC_def]
  define w5 where "w5 = cleanupIncidents wC"
  have w5: "w5 = wC\<lparr>outbox := outbox wC @ map (\<lambda>i. INCIDENT_EVENT i False)
                              (filter (\<lambda>i. expiresAt i \<le> simTime wC) (map snd (activeIncidents wC))),
       activeIncidents := filter (\<lambda>p. simTime wC < expiresAt (snd p)) (activeIncidents wC)\<rparr>"
    unfolding w5_def using cleanupIncidents_eq [OF chk(1)] .
  define w' where "w' = postMessage (TICK (buildSnapshot w5)) w5"
  have tick: "simulationTick w = Inr w'"
    using w3(1) u e
    unfolding w'_def w5_def wC_def wE_def w4_def hour_def w2_def w1_def
    by (simp add: simulationTick_def Let_def)
  have c': "stationQueues w' = stationQueues wL" "simStations w' = simStations w"
    "simLines w' = simLines w" "trains w' = ts'" "simTime w' = simTime w + TICK_SECONDS"
    "simulationInterval w' = simulationInterval w" "running w' = running w"
    "nextIncidentId w' = nextIncidentId wC"
    "activeIncidents w' = filter (\<lambda>p. simTime w' < expiresAt (snd p)) (activeIncidents wC)"
    "outbox w' = outbox wC @ map (\<lambda>i. INCIDENT_EVENT i False)
                   (filter (\<lambda>i. expiresAt i \<le> simTime w') (map snd (activeIncidents wC)))
                 @ [TICK (buildSnapshot w5)]"
    using chk(4-10) cE unfolding w'_def postMessage_def w5 by simp_all
  have cL: "simStations wL = simStations w" "simLines wL = simLines w"
    using sL by (simp_all add: sameNet_def midTick_def)
  have core: "stationsKeyed w' = stationsKeyed wL" "queuesOK w' = queuesOK wL"
    "ridersOK w' = ridersOK wL"
    using core_cong [of w' wL] c'(1,2,3) cL by simp_all
  have core2: "placed w' = placed w" "linesOK w' = linesOK w"
    using c'(3) by (auto simp: linesOK_def intro!: ext placed_cong)
  have pl: "list_all (placed w) ts'"
  proof -
    have "placed (midTick w) = placed w"
      by (intro ext placed_cong) (simp add: midTick_def)
    then show ?thesis
      using list_all2_placed [OF steps] i(4) by simp
  qed
  have tab: "incidentsTable w'"
  proof -
    have "distinct (map fst (activeIncidents wC))"
      and "list_all (\<lambda>(k, i). inc_id i = k \<and> k < nextIncidentId wC \<and> 0 \<le> inc_value i)
             (activeIncidents wC)"
      using chk(1) by (simp_all add: incidentsTable_def)
    then show ?thesis
      unfolding incidentsTable_def c'(8,9)
      by (auto simp: distinct_map_filter list_all_iff)
  qed
  have fresh: "incidentsFresh w'"
    unfolding incidentsFresh_def c'(9) by (auto simp: list_all_iff)
  have "consistent w'"
    unfolding consistent_def core core2 c'(4)
    using iL(2,3,4) pl i(5) tab fresh by simp
  moreover obtain ob where ob: "outbox wC = outbox w @ ob"
  proof -
    have "outbox wE = outbox w"
      using sL by (simp add: wE_def w4_def sameNet_def midTick_def)
    then show ?thesis
      using checkForIncidents_outbox [of wE] that unfolding wC_def by auto
  qed
  define new where "new = ob @ map (\<lambda>i. INCIDENT_EVENT i False)
                   (filter (\<lambda>i. expiresAt i \<le> simTime w') (map snd (activeIncidents wC)))
                 @ [TICK (buildSnapshot w5)]"
  have out: "outbox w' = outbox w @ new"
    unfolding c'(10) ob new_def by simp
  have "\<forall>p \<in> set (activeIncidents w).
                  if expiresAt (snd p) \<le> simTime w'
                  then p \<notin> set (activeIncidents w') \<and> INCIDENT_EVENT (snd p) False \<in> set new
                  else p \<in> set (activeIncidents w')"
  proof
    fix p
    assume "p \<in> set (activeIncidents w)"
    then have "p \<in> set (activeIncidents wC)"
      using chk(2) cE(5) by auto
    then show "if expiresAt (snd p) \<le> simTime w'
                  then p \<notin> set (activeIncidents w') \<and> INCIDENT_EVENT (snd p) False \<in> set new
                  else p \<in> set (activeIncidents w')"
      unfolding c'(9) new_def by (auto simp: image_iff intro!: bexI [of _ p])
  qed
  ultimately show ?thesis
    using tick steps c'(2,3,5,6,7) out unfolding c'(4) [symmetric] by blast
qed

subsection \<open>Messages that leave the network alone\<close>

lemma inv_core:
  assumes "core w' = core w"
  shows "consistent w' = consistent w"
proof -
  have e: "stationQueues w' = stationQueues w" "simStations w' = simStations w"
    "simLines w' = simLines w" "trains w' = trains w" "activeIncidents w' = activeIncidents w"
    "nextIncidentId w' = nextIncidentId w" "simTime w' = simTime w"
    using assms by (simp_all add: core_def)
  have "incidentsTable w' = incidentsTable w" "incidentsFresh w' = incidentsFresh w"
    using e by (simp_all add: incidentsTable_def incidentsFresh_def)
  then show ?thesis
    unfolding consistent_def using core_cong [OF e(1,2,3)] e(4) by simp
qed

lemma randoms_core: "randoms n w = (rs, w') \<Longrightarrow> core w' = core w \<and> outbox w' = outbox w
    \<and> simulationInterval w' = simulationInterval w \<and> running w' = running w"
proof (induction n arbitrary: w rs w')
  case 0
  then show ?case by simp
next
  case (Suc n)
  obtain rs1 w1 where r: "randoms n (w\<lparr>randUsed := randUsed w + 1\<rparr>) = (rs1, w1)"
    by (cases "randoms n (w\<lparr>randUsed := randUsed w + 1\<rparr>)") auto
  have "w' = w1" using Suc.prems r by (simp add: random_def)
  moreover have "core w1 = core (w\<lparr>randUsed := randUsed w + 1\<rparr>) \<and> outbox w1 = outbox (w\<lparr>randUsed := randUsed w + 1\<rparr>)
    \<and> simulationInterval w1 = simulationInterval (w\<lparr>randUsed := randUsed w + 1\<rparr>)
    \<and> running w1 = running (w\<lparr>randUsed := randUsed w + 1\<rparr>)"
    using Suc.IH [OF r] .
  ultimately show ?case by (simp add: core_def)
qed

lemma demandCell_core:
  "demandCell ij (w, fs) = (w', fs') \<Longrightarrow> core w' = core w"
  by (auto simp: demandCell_def random_def Let_def core_def split: if_splits)

lemma fold_demandCell_core:
  "fold demandCell cells (w, fs) = (w', fs') \<Longrightarrow> core w' = core w"
proof (induction cells arbitrary: w fs)
  case Nil
  then show ?case by simp
next
  case (Cons ij cells)
  obtain w1 fs1 where s: "demandCell ij (w, fs) = (w1, fs1)"
    by (cases "demandCell ij (w, fs)") auto
  then show ?case
    using Cons.IH [of w1 fs1] Cons.prems demandCell_core [OF s] by simp
qed

lemma createDemandGrid_core: "core (createDemandGrid w) = core w"
proof -
  obtain w' fs' where f: "fold demandCell (concat (map (\<lambda>i. map (\<lambda>j. (i, j)) [0..<20]) [0..<20]))
            (w\<lparr>TOTAL_DEMAND := 0\<rparr>, []) = (w', fs')"
    by (cases "fold demandCell (concat (map (\<lambda>i. map (\<lambda>j. (i, j)) [0..<20]) [0..<20]))
            (w\<lparr>TOTAL_DEMAND := 0\<rparr>, [])") auto
  have "core w' = core (w\<lparr>TOTAL_DEMAND := 0\<rparr>)"
    using fold_demandCell_core [OF f] .
  then show ?thesis
    using f by (simp add: createDemandGrid_def core_def)
qed

lemma onmessage_core:
  assumes "\<And>lines stations. c \<noteq> UPDATE_NETWORK lines stations"
  shows "core (onmessage c w) = core w"
proof (cases c)
  case START
  then show ?thesis by (simp add: startSimulation_def core_def)
next
  case PAUSE
  then show ?thesis by (simp add: pauseSimulation_def core_def Let_def)
next
  case (UPDATE_NETWORK x31 x32)
  then show ?thesis using assms by simp
next
  case (BUILD_INFRASTRUCTURE x4)
  then show ?thesis by (simp add: handleInfrastructureBuild_def core_def Let_def)
next
  case (PLAN_JOURNEY x51 x52)
  then show ?thesis
    by (simp add: handlePlanJourney_def core_def Let_def postMessage_def split: option.splits)
next
  case GET_DEMAND_GRID
  then show ?thesis
    using createDemandGrid_core [of w]
    by (simp add: core_def Let_def postMessage_def split: option.splits)
next
  case (SET_DEMAND_GRID x7)
  then show ?thesis by (simp add: setDemandGrid_def core_def postMessage_def)
next
  case (GET_DEMAND_DETAILS x8)
  obtain rs w1 where r: "randoms 12 w = (rs, w1)"
    by (cases "randoms 12 w") auto
  then show ?thesis
    using GET_DEMAND_DETAILS randoms_core [OF r]
    by (simp add: handleDemandDetails_def core_def Let_def postMessage_def)
qed

subsection \<open>Building the network\<close>

lemma sameStation_refl: "list_all2 sameStation xs xs"
  by (simp add: list_all2_refl sameStation_def)

lemma sameStation_trans:
  "list_all2 sameStation xs ys \<Longrightarrow> list_all2 sameStation ys zs \<Longrightarrow> list_all2 sameStation xs zs"
  by (rule list_all2_trans [of sameStation sameStation sameStation xs ys zs])
     (auto simp: sameStation_def)

lemma snapVertex_same:
  "snapVertex i c d stations = (stations', r) \<Longrightarrow> list_all2 sameStation stations stations'"
proof (induction stations arbitrary: stations' r)
  case Nil
  then show ?case by simp
next
  case (Cons p stations)
  obtain k s where p: "p = (k, s)" by (cases p) auto
  show ?case
  proof (cases "turfDistance (st_coords s) c < 50")
    case True
    then have "stations' = (k, s\<lparr>st_lines := setAdd i (st_lines s)\<rparr>) # stations"
      using Cons.prems p by auto
    moreover have "sameStation p (k, s\<lparr>st_lines := setAdd i (st_lines s)\<rparr>)"
      by (simp add: sameStation_def p)
    ultimately show ?thesis
      using sameStation_refl by simp
  next
    case False
    obtain rest' r' where s: "snapVertex i c d stations = (rest', r')"
      by (cases "snapVertex i c d stations") auto
    then have "stations' = p # rest'"
      using Cons.prems p False by auto
    moreover have "sameStation p p"
      by (simp add: sameStation_def)
    ultimately show ?thesis
      using Cons.IH [OF s] by simp
  qed
qed

lemma snapVertices_same:
  "snapVertices i coords ixs stations acc = (stations', sds) \<Longrightarrow>
   list_all2 sameStation stations stations'"
proof (induction ixs arbitrary: stations acc)
  case Nil
  then show ?case by (simp add: sameStation_refl)
next
  case (Cons index ixs)
  obtain st1 r where s: "snapVertex i (coords ! index) (segmentSum coords index) stations = (st1, r)"
    by (cases "snapVertex i (coords ! index) (segmentSum coords index) stations") auto
  have one: "list_all2 sameStation stations st1"
    using snapVertex_same [OF s] .
  show ?case
  proof (cases r)
    case None
    then have "snapVertices i coords ixs st1 acc = (stations', sds)"
      using Cons.prems s by simp
    then show ?thesis using Cons.IH one sameStation_trans by blast
  next
    case (Some sd)
    then have "snapVertices i coords ixs st1 (acc @ [sd]) = (stations', sds)"
      using Cons.prems s by simp
    then show ?thesis using Cons.IH one sameStation_trans by blast
  qed
qed

lemma sameStation_keyed:
  assumes "list_all2 sameStation stations stations'"
    and "list_all (\<lambda>(k, s). st_id s = k \<and> Q k) stations"
  shows "list_all (\<lambda>(k, s). st_id s = k \<and> Q k) stations'"
  using assms
  by (induction rule: list_all2_induct) (auto simp: sameStation_def)

lemma lineIdentity_frame:
  "lineIdentity f w = (i, w1) \<Longrightarrow> \<exists>n. w1 = w\<lparr>nextTrainId := n\<rparr>"
  by (auto simp: lineIdentity_def split: option.splits intro: exI [of _ "nextTrainId w"])

text \<open>What \<open>prepareLine\<close> changes: the train counter, the lines noted on the stations, and
  possibly one entry of the line table.\<close>

lemma prepareLine_shape:
  "\<exists>n stations'. list_all2 sameStation (simStations w) stations'
     \<and> (prepareLine f w = w\<lparr>nextTrainId := n, simStations := stations'\<rparr>
        \<or> (\<exists>i line. ln_id line = i \<and> 2 \<le> length (stationDistances line)
              \<and> prepareLine f w =
                  w\<lparr>nextTrainId := n, simStations := stations',
                    simLines := AList.update i line (simLines w)\<rparr>))"
proof (cases "length (lf_coordinates f) < 2")
  case True
  have "prepareLine f w = w\<lparr>nextTrainId := nextTrainId w, simStations := simStations w\<rparr>"
    using True by (simp add: prepareLine_def)
  then show ?thesis using sameStation_refl by blast
next
  case False
  obtain i w1 where id: "lineIdentity f w = (i, w1)"
    by (cases "lineIdentity f w") auto
  then obtain n where w1: "w1 = w\<lparr>nextTrainId := n\<rparr>"
    using lineIdentity_frame by blast
  obtain stations' sds where sv:
    "snapVertices i (lf_coordinates f) [0..<length (lf_coordinates f)] (simStations w) [] = (stations', sds)"
    by (cases "snapVertices i (lf_coordinates f) [0..<length (lf_coordinates f)] (simStations w) []") auto
  have same: "list_all2 sameStation (simStations w) stations'"
    using snapVertices_same [OF sv] .
  show ?thesis
  proof (cases "length sds < 2")
    case True
    have "prepareLine f w = w\<lparr>nextTrainId := n, simStations := stations'\<rparr>"
      using False id sv True by (simp add: prepareLine_def Let_def w1)
    then show ?thesis using same by blast
  next
    case short: False
    define line where "line = \<lparr> ln_id = i, ln_coords = lf_coordinates f,
        ln_length = segmentSum (lf_coordinates f) (length (lf_coordinates f) - 1),
        stationDistances = sort_key snd sds,
        headway = max 120 ((real (length (sort_key snd sds)) - 1) * 90) \<rparr>"
    have "prepareLine f w = w\<lparr>nextTrainId := n, simStations := stations',
                    simLines := AList.update i line (simLines w)\<rparr>"
      using False id sv short unfolding line_def by (simp add: prepareLine_def Let_def w1)
    moreover have "ln_id line = i \<and> 2 \<le> length (stationDistances line)"
      using short by (simp add: line_def)
    ultimately show ?thesis using same by blast
  qed
qed

lemma prepareLine_building:
  assumes "building w"
  shows "building (prepareLine f w)"
    and "activeIncidents (prepareLine f w) = activeIncidents w"
    and "nextIncidentId (prepareLine f w) = nextIncidentId w"
    and "simTime (prepareLine f w) = simTime w"
proof -
  obtain n stations' where same: "list_all2 sameStation (simStations w) stations'"
    and alt: "prepareLine f w = w\<lparr>nextTrainId := n, simStations := stations'\<rparr>
        \<or> (\<exists>i line. ln_id line = i \<and> 2 \<le> length (stationDistances line)
              \<and> prepareLine f w =
                  w\<lparr>nextTrainId := n, simStations := stations',
                    simLines := AList.update i line (simLines w)\<rparr>)"
    using prepareLine_shape [of w f] by blast
  have b: "stationsKeyed w" "linesOK w" "trains w = []" "list_all (\<lambda>(k, q). q = []) (stationQueues w)"
    using assms by (simp_all add: building_def)
  have keyed: "list_all (\<lambda>(k, s). st_id s = k \<and> map_of (stationQueues w) k \<noteq> None) stations'"
    using sameStation_keyed [OF same, of "\<lambda>k. map_of (stationQueues w) k \<noteq> None"] b(1)
    by (simp add: stationsKeyed_def)
  from alt have "building (prepareLine f w) \<and> activeIncidents (prepareLine f w) = activeIncidents w
    \<and> nextIncidentId (prepareLine f w) = nextIncidentId w \<and> simTime (prepareLine f w) = simTime w"
  proof
    assume e: "prepareLine f w = w\<lparr>nextTrainId := n, simStations := stations'\<rparr>"
    show ?thesis
      unfolding e using keyed b by (simp add: building_def stationsKeyed_def linesOK_def)
  next
    assume "\<exists>i line. ln_id line = i \<and> 2 \<le> length (stationDistances line)
              \<and> prepareLine f w =
                  w\<lparr>nextTrainId := n, simStations := stations',
                    simLines := AList.update i line (simLines w)\<rparr>"
    then obtain i line where l: "ln_id line = i" "2 \<le> length (stationDistances line)"
      and e: "prepareLine f w = w\<lparr>nextTrainId := n, simStations := stations',
                    simLines := AList.update i line (simLines w)\<rparr>"
      by blast
    have "list_all (\<lambda>(k, l). ln_id l = k \<and> 2 \<le> length (stationDistances l))
            (AList.update i line (simLines w))"
      using b(2) l by (intro list_all_update) (auto simp: linesOK_def)
    moreover have "distinct (map fst (AList.update i line (simLines w)))"
      using b(2) by (simp add: linesOK_def distinct_update)
    ultimately show ?thesis
      unfolding e using keyed b by (simp add: building_def stationsKeyed_def linesOK_def)
  qed
  then show "building (prepareLine f w)"
    and "activeIncidents (prepareLine f w) = activeIncidents w"
    and "nextIncidentId (prepareLine f w) = nextIncidentId w"
    and "simTime (prepareLine f w) = simTime w"
    by simp_all
qed

lemma fold_prepareLine_building:
  "building w \<Longrightarrow>
   building (fold prepareLine fs w) \<and> activeIncidents (fold prepareLine fs w) = activeIncidents w
   \<and> nextIncidentId (fold prepareLine fs w) = nextIncidentId w
   \<and> simTime (fold prepareLine fs w) = simTime w"
proof (induction fs arbitrary: w)
  case Nil
  then show ?case by simp
next
  case (Cons f fs)
  show ?case
    using Cons.IH [OF prepareLine_building(1) [OF Cons.prems, of f]]
      prepareLine_building(2,3,4) [OF Cons.prems, of f]
    by simp
qed

lemma addStation_building:
  assumes "building w" and "simLines w = []"
  shows "building (addStationToSimulation f w)" and "simLines (addStationToSimulation f w) = []"
    and "activeIncidents (addStationToSimulation f w) = activeIncidents w"
    and "nextIncidentId (addStationToSimulation f w) = nextIncidentId w"
    and "simTime (addStationToSimulation f w) = simTime w"
proof -
  define i where "i = (case pf_prop_id f of Some i \<Rightarrow> i
              | None \<Rightarrow> (case pf_id f of Some i \<Rightarrow> i | None \<Rightarrow> IdCoords (pf_coordinates f)))"
  define s where "s = \<lparr> st_id = i, st_coords = pf_coordinates f,
                        st_name = (case pf_prop_name f of Some n \<Rightarrow> Label n
                                   | None \<Rightarrow> StationLabel i),
                        st_lines = [] \<rparr>"
  have e: "addStationToSimulation f w =
      w\<lparr> simStations := AList.update i s (simStations w),
           stationQueues := AList.update i [] (stationQueues w) \<rparr>"
    unfolding i_def s_def by (simp add: addStationToSimulation_def Let_def)
  have b: "stationsKeyed w" "linesOK w" "trains w = []" "list_all (\<lambda>(k, q). q = []) (stationQueues w)"
    using assms by (simp_all add: building_def)
  have "list_all (\<lambda>(k, s). st_id s = k \<and> map_of (AList.update i [] (stationQueues w)) k \<noteq> None)
          (simStations w)"
    using b(1) by (auto simp: stationsKeyed_def list_all_iff update_conv')
  then have "list_all (\<lambda>(k, s). st_id s = k \<and> map_of (AList.update i [] (stationQueues w)) k \<noteq> None)
          (AList.update i s (simStations w))"
    by (intro list_all_update) (auto simp: s_def update_conv')
  moreover have "list_all (\<lambda>(k, q). q = []) (AList.update i [] (stationQueues w))"
    using b(4) by (intro list_all_update) auto
  ultimately show "building (addStationToSimulation f w)"
    unfolding e using b(2,3) by (simp add: building_def stationsKeyed_def linesOK_def)
  show "simLines (addStationToSimulation f w) = []"
    and "activeIncidents (addStationToSimulation f w) = activeIncidents w"
    and "nextIncidentId (addStationToSimulation f w) = nextIncidentId w"
    and "simTime (addStationToSimulation f w) = simTime w"
    unfolding e using assms(2) by simp_all
qed

lemma fold_addStation_building:
  "building w \<Longrightarrow> simLines w = [] \<Longrightarrow>
   building (fold addStationToSimulation fs w)
   \<and> activeIncidents (fold addStationToSimulation fs w) = activeIncidents w
   \<and> nextIncidentId (fold addStationToSimulation fs w) = nextIncidentId w
   \<and> simTime (fold addStationToSimulation fs w) = simTime w"
proof (induction fs arbitrary: w)
  case Nil
  then show ?case by simp
next
  case (Cons f fs)
  show ?case
    using Cons.IH [OF addStation_building(1,2) [OF Cons.prems, of f]]
      addStation_building(3,4,5) [OF Cons.prems, of f]
    by simp
qed

subsection \<open>Every reachable world is consistent\<close>

lemma spawnTrainsForLine_shape:
  "\<exists>ts n. spawnTrainsForLine line w = w\<lparr>trains := trains w @ ts, nextTrainId := n\<rparr>
      \<and> list_all (freshTrain line) ts"
proof (cases "length (stationDistances line) < 2")
  case True
  then have "spawnTrainsForLine line w = w\<lparr>trains := trains w @ [], nextTrainId := nextTrainId w\<rparr>"
    by (simp add: spawnTrainsForLine_def)
  moreover have "list_all (freshTrain line) []" by simp
  ultimately show ?thesis by blast
next
  case False
  define ts where "ts = map (\<lambda>i. newTrain (nextTrainId w + i) line
      (ln_length line / real TRAINS_PER_LINE * real i)) [0..<TRAINS_PER_LINE]"
  have "spawnTrainsForLine line w
      = w\<lparr>trains := trains w @ ts, nextTrainId := nextTrainId w + TRAINS_PER_LINE\<rparr>"
    using False by (simp add: spawnTrainsForLine_def Let_def ts_def)
  moreover have "list_all (freshTrain line) ts"
  proof -
    have "freshTrain line (newTrain (nextTrainId w + i) line (ln_length line / real TRAINS_PER_LINE * real i))"
      if "i < TRAINS_PER_LINE" for i
    proof -
      have "real i \<le> 4" using that by (simp add: TRAINS_PER_LINE_def)
      then have "ln_length line / 4 * real i \<le> ln_length line" if "0 \<le> ln_length line"
        using that mult_left_mono [of "real i" 4 "ln_length line / 4"] by simp
      then show ?thesis
        using False by (simp add: freshTrain_def newTrain_def TRAINS_PER_LINE_def)
    qed
    then show ?thesis
      by (simp add: ts_def list_all_iff)
  qed
  ultimately show ?thesis by blast
qed

lemma fresh_placed:
  "freshTrain line t \<Longrightarrow> map_of (simLines w) (ln_id line) = Some line \<Longrightarrow>
   placed w t \<and> ridersOK w t"
  by (simp add: freshTrain_def placed_def ridersOK_def)

lemma fold_spawnTrainsForLine:
  assumes "\<forall>l \<in> set ls. map_of (simLines w) (ln_id l) = Some l"
    and "list_all (\<lambda>t. placed w t \<and> ridersOK w t) (trains w)"
  shows "\<exists>ts n. fold spawnTrainsForLine ls w = w\<lparr>trains := ts, nextTrainId := n\<rparr>
           \<and> list_all (\<lambda>t. placed w t \<and> ridersOK w t) ts"
  using assms
proof (induction ls arbitrary: w)
  case Nil
  have "w = w\<lparr>trains := trains w, nextTrainId := nextTrainId w\<rparr>" by simp
  then have "fold spawnTrainsForLine [] w = w\<lparr>trains := trains w, nextTrainId := nextTrainId w\<rparr>"
    by simp
  then show ?case using Nil.prems(2) by blast
next
  case (Cons l ls)
  obtain ts n where s: "spawnTrainsForLine l w = w\<lparr>trains := trains w @ ts, nextTrainId := n\<rparr>"
    and f: "list_all (freshTrain l) ts"
    using spawnTrainsForLine_shape by blast
  define w1 where "w1 = w\<lparr>trains := trains w @ ts, nextTrainId := n\<rparr>"
  have l1: "simLines w1 = simLines w" by (simp add: w1_def)
  have eq: "placed w1 = placed w" "ridersOK w1 = ridersOK w"
    using placed_cong [OF l1] ridersOK_cong [OF l1] by (auto intro!: ext)
  have "map_of (simLines w) (ln_id l) = Some l"
    using Cons.prems(1) by simp
  then have "list_all (\<lambda>t. placed w t \<and> ridersOK w t) ts"
    using f fresh_placed [of l _ w] by (simp add: list_all_iff)
  then have a: "list_all (\<lambda>t. placed w1 t \<and> ridersOK w1 t) (trains w1)"
    using Cons.prems(2) unfolding eq by (simp add: w1_def)
  have b: "\<forall>l \<in> set ls. map_of (simLines w1) (ln_id l) = Some l"
    using Cons.prems(1) l1 by simp
  obtain ts' n' where r: "fold spawnTrainsForLine ls w1 = w1\<lparr>trains := ts', nextTrainId := n'\<rparr>"
    and p: "list_all (\<lambda>t. placed w1 t \<and> ridersOK w1 t) ts'"
    using Cons.IH [OF b a] by blast
  have "fold spawnTrainsForLine (l # ls) w = w\<lparr>trains := ts', nextTrainId := n'\<rparr>"
    using r s by (simp add: w1_def)
  then show ?case using p unfolding eq by blast
qed

lemma linesOK_lookup:
  assumes "linesOK w"
  shows "\<forall>l \<in> set (map snd (simLines w)). map_of (simLines w) (ln_id l) = Some l"
proof -
  have d: "distinct (map fst (simLines w))"
    and k: "list_all (\<lambda>(k, l). ln_id l = k \<and> 2 \<le> length (stationDistances l)) (simLines w)"
    using assms by (simp_all add: linesOK_def)
  show ?thesis
  proof
    fix l
    assume "l \<in> set (map snd (simLines w))"
    then obtain k' where m: "(k', l) \<in> set (simLines w)" by auto
    then have "ln_id l = k'" using k by (auto simp: list_all_iff)
    then show "map_of (simLines w) (ln_id l) = Some l"
      using m d by simp
  qed
qed

text \<open>\<open>UPDATE_NETWORK\<close> builds a consistent world, whatever the features are.\<close>

lemma updateNetwork_built:
  shows "stationsKeyed (updateNetwork lines stations w)"
    and "queuesOK (updateNetwork lines stations w)"
    and "list_all (ridersOK (updateNetwork lines stations w)) (trains (updateNetwork lines stations w))"
    and "list_all (placed (updateNetwork lines stations w)) (trains (updateNetwork lines stations w))"
    and "linesOK (updateNetwork lines stations w)"
    and "simTime (updateNetwork lines stations w) = simTime w"
    and "activeIncidents (updateNetwork lines stations w) = activeIncidents w"
    and "nextIncidentId (updateNetwork lines stations w) = nextIncidentId w"
proof -
  define w1 where "w1 = resetSimulation (w\<lparr>linesOrigin := lines, stationsOrigin := stations\<rparr>)"
  define w2 where "w2 = fold addStationToSimulation (stationsOrigin w1) w1"
  define w3 where "w3 = prepareLines w2"
  define w4 where "w4 = fold spawnTrainsForLine (map snd (simLines w3)) w3"
  have e: "updateNetwork lines stations w = postMessage NETWORK_READY w4"
    by (simp add: updateNetwork_def Let_def w1_def w2_def w3_def w4_def)
  have b1: "building w1" "simLines w1 = []"
    by (simp_all add: w1_def resetSimulation_def building_def stationsKeyed_def linesOK_def)
  have f1: "activeIncidents w1 = activeIncidents w" "nextIncidentId w1 = nextIncidentId w"
    "simTime w1 = simTime w"
    by (simp_all add: w1_def resetSimulation_def)
  have b2: "building w2" and f2: "activeIncidents w2 = activeIncidents w"
    "nextIncidentId w2 = nextIncidentId w" "simTime w2 = simTime w"
    using fold_addStation_building [OF b1, of "stationsOrigin w1"] f1 by (simp_all add: w2_def)
  have b3: "building w3" and f3: "activeIncidents w3 = activeIncidents w"
    "nextIncidentId w3 = nextIncidentId w" "simTime w3 = simTime w"
    using fold_prepareLine_building [OF b2, of "linesOrigin w2"] f2
    by (simp_all add: w3_def prepareLines_def)
  have k3: "stationsKeyed w3" "linesOK w3" "trains w3 = []"
    "list_all (\<lambda>(k, q). q = []) (stationQueues w3)"
    using b3 by (simp_all add: building_def)
  obtain ts n where s: "w4 = w3\<lparr>trains := ts, nextTrainId := n\<rparr>"
    and p: "list_all (\<lambda>t. placed w3 t \<and> ridersOK w3 t) ts"
    using fold_spawnTrainsForLine [OF linesOK_lookup [OF k3(2)]] k3(3) unfolding w4_def
    by auto
  define w5 where "w5 = postMessage NETWORK_READY w4"
  have c: "stationQueues w5 = stationQueues w3" "simStations w5 = simStations w3"
    "simLines w5 = simLines w3" "trains w5 = ts" "activeIncidents w5 = activeIncidents w"
    "nextIncidentId w5 = nextIncidentId w" "simTime w5 = simTime w"
    using f3 by (simp_all add: w5_def postMessage_def s)
  have q: "queuesOK w5"
    using k3(4) unfolding queuesOK_def c(1) by (auto simp: list_all_iff)
  have k5: "stationsKeyed w5" "linesOK w5"
    using k3(1,2) c(1,2,3) by (simp_all add: stationsKeyed_def linesOK_def)
  have t5: "list_all (ridersOK w5) (trains w5)" "list_all (placed w5) (trains w5)"
    using p placed_cong [OF c(3)] ridersOK_cong [OF c(3)] unfolding c(4)
    by (simp_all add: list_all_iff)
  show "stationsKeyed (updateNetwork lines stations w)"
    and "queuesOK (updateNetwork lines stations w)"
    and "list_all (ridersOK (updateNetwork lines stations w)) (trains (updateNetwork lines stations w))"
    and "list_all (placed (updateNetwork lines stations w)) (trains (updateNetwork lines stations w))"
    and "linesOK (updateNetwork lines stations w)"
    and "simTime (updateNetwork lines stations w) = simTime w"
    and "activeIncidents (updateNetwork lines stations w) = activeIncidents w"
    and "nextIncidentId (updateNetwork lines stations w) = nextIncidentId w"
    using k5 q t5 c(5,6,7) unfolding e w5_def [symmetric] by simp_all
qed

lemma updateNetwork_inv:
  assumes "incidentsTable w" and "incidentsFresh w"
  shows "consistent (updateNetwork lines stations w)"
  using updateNetwork_built [of lines stations w] assms
  by (simp add: consistent_def incidentsTable_def incidentsFresh_def)

lemma onmessage_inv:
  assumes "consistent w"
  shows "consistent (onmessage c w)"
proof (cases "\<exists>lines stations. c = UPDATE_NETWORK lines stations")
  case True
  then obtain lines stations where c: "c = UPDATE_NETWORK lines stations" by blast
  show ?thesis
    using updateNetwork_inv [of w lines stations] assms by (simp add: c consistent_def)
next
  case False
  then have "core (onmessage c w) = core w"
    using onmessage_core [of c w] by blast
  then show ?thesis
    using inv_core assms by blast
qed

lemma initial_inv: "consistent (initial_world r)"
  by (simp add: consistent_def initial_world_def stationsKeyed_def queuesOK_def linesOK_def
      incidentsTable_def incidentsFresh_def)

lemma reachable_inv: "reachable w \<Longrightarrow> consistent w"
proof (induction rule: reachable.induct)
  case (init r)
  show ?case by (rule initial_inv)
next
  case (message w c)
  then show ?case using onmessage_inv by blast
next
  case (tick w w')
  then show ?case using tick_inv [of w] by auto
qed

section \<open>Trains and incidents in a tick\<close>

lemma capFold_le:
  "fold (\<lambda>i acc. if P i then min acc (f i) else acc) xs (a::real) \<le> a"
proof (induction xs arbitrary: a)
  case Nil
  show ?case by simp
next
  case (Cons x xs)
  show ?case
    using Cons.IH [of "if P x then min a (f x) else a"] by (auto simp: min_def split: if_splits)
qed

lemma capFold_member:
  "i \<in> set xs \<Longrightarrow> P i \<Longrightarrow> fold (\<lambda>i acc. if P i then min acc (f i) else acc) xs (a::real) \<le> f i"
proof (induction xs arbitrary: a)
  case Nil
  then show ?case by simp
next
  case (Cons x xs)
  show ?case
  proof (cases "i = x")
    case True
    have "fold (\<lambda>i acc. if P i then min acc (f i) else acc) xs (min a (f x)) \<le> min a (f x)"
      by (rule capFold_le)
    then show ?thesis using True Cons.prems(2) by simp
  next
    case False
    then have "i \<in> set xs" using Cons.prems(1) by simp
    then show ?thesis using Cons.IH [OF _ Cons.prems(2)] by simp
  qed
qed

lemma capFold_ge:
  "c \<le> a \<Longrightarrow> \<forall>i \<in> set xs. P i \<longrightarrow> c \<le> f i \<Longrightarrow>
   c \<le> fold (\<lambda>i acc. if P i then min acc (f i) else acc) xs (a::real)"
proof (induction xs arbitrary: a)
  case Nil
  then show ?case by simp
next
  case (Cons x xs)
  have "c \<le> (if P x then min a (f x) else a)"
    using Cons.prems by auto
  then show ?case
    using Cons.IH [of "if P x then min a (f x) else a"] Cons.prems(2) by simp
qed

lemma capFold_none:
  "\<forall>i \<in> set xs. \<not> P i \<Longrightarrow> fold (\<lambda>i acc. if P i then min acc (f i) else acc) xs (a::real) = a"
  by (induction xs arbitrary: a) auto

lemma targetSpeedFor_cap:
  assumes "(k, i) \<in> set (activeIncidents w)" and "inc_type i = speed_cap"
    and "targetId i = IdNum (int (tr_id t))"
  shows "targetSpeedFor w t \<le> inc_value i"
proof -
  have "i \<in> set (map snd (activeIncidents w))"
    using assms(1) by force
  then show ?thesis
    unfolding targetSpeedFor_def
    using capFold_member [of i "map snd (activeIncidents w)"
        "\<lambda>i. inc_type i = speed_cap \<and> targetId i = IdNum (int (tr_id t))" inc_value MAX_TRAIN_SPEED]
      assms(2,3)
    by simp
qed

lemma targetSpeedFor_nonneg:
  assumes "incidentsTable w"
  shows "0 \<le> targetSpeedFor w t"
  unfolding targetSpeedFor_def
  using assms
  by (intro capFold_ge) (auto simp: incidentsTable_def list_all_iff MAX_TRAIN_SPEED_def)

lemma targetSpeedFor_free:
  assumes "\<forall>p \<in> set (activeIncidents w).
      \<not> (inc_type (snd p) = speed_cap \<and> targetId (snd p) = IdNum (int (tr_id t)))"
  shows "targetSpeedFor w t = MAX_TRAIN_SPEED"
  unfolding targetSpeedFor_def
  using assms by (intro capFold_none) auto

lemma moveTrain_speed:
  "0 \<le> targetSpeedFor w t \<Longrightarrow>
   0 \<le> speed (moveTrain w t nx) \<and> speed (moveTrain w t nx) \<le> targetSpeedFor w t"
  by (simp add: moveTrain_def Let_def clamp_def)

lemma trainStep_trainTick:
  assumes "trainStep (midTick w) t t'" and "placed w t" and "incidentsTable w"
  shows "trainTick w t t'"
proof -
  from assms(2) obtain line where line: "map_of (simLines w) (tr_lineId t) = Some line"
    and long: "2 \<le> length (stationDistances line)"
    and dw: "tstate t = Dwelling \<longrightarrow> speed t = 0"
    and rng: "0 \<le> ln_length line \<longrightarrow>
             0 \<le> distanceAlongLine t \<and> distanceAlongLine t \<le> ln_length line"
    by (auto simp: placed_def split: option.splits)
  from assms(1) obtain wa where wa: "sameNet (midTick w) wa" "stepOK wa t t'"
    and ids: "tr_id t' = tr_id t" "tr_lineId t' = tr_lineId t"
    by (auto simp: trainStep_def)
  have eq: "simLines wa = simLines w" "activeIncidents wa = activeIncidents w"
    using wa(1) by (simp_all add: sameNet_def midTick_def)
  have ts: "targetSpeedFor wa t = targetSpeedFor w t"
    by (simp add: targetSpeedFor_def eq)
  have nn: "0 \<le> targetSpeedFor w t"
    using targetSpeedFor_nonneg [OF assms(3)] .
  have shape: "stepShape wa line t t'"
    using wa(2) line long by (simp add: stepOK_def eq)
  show ?thesis
  proof (cases "tstate t = Dwelling")
    case True
    then have "distanceAlongLine t' = distanceAlongLine t" "speed t' = speed t"
      "direction t' = direction t"
      using shape by (simp_all add: stepShape_def)
    then show ?thesis
      using ids rng dw True nn line long by (simp add: trainTick_def keepsToLine_def)
  next
    case False
    then obtain t3 where t3: "t' = endOfLine line t3" and d3: "direction t3 = direction t"
      and alt: "t3 = moveTrain wa t (getNextStation t line) \<or> (speed t3 = 0 \<and> tstate t3 = Dwelling)"
      using shape by (auto simp: stepShape_def)
    have sp: "0 \<le> speed t3 \<and> speed t3 \<le> targetSpeedFor w t"
      using alt moveTrain_speed [of wa t "getNextStation t line"] nn ts by auto
    have "0 \<le> speed t' \<and> speed t' \<le> targetSpeedFor w t"
      using sp by (simp add: t3 endOfLine_fields)
    moreover have "0 \<le> ln_length line \<longrightarrow>
           0 \<le> distanceAlongLine t' \<and> distanceAlongLine t' \<le> ln_length line"
      using endOfLine_range [of line t3] by (simp add: t3)
    moreover have "direction t' \<noteq> direction t \<longrightarrow>
           (distanceAlongLine t' = ln_length line \<and> direction t' = MinusOne)
         \<or> (distanceAlongLine t' = 0 \<and> direction t' = PlusOne)"
      using d3 by (auto simp: t3 endOfLine_def)
    moreover have "0 < ln_length line \<longrightarrow>
           (distanceAlongLine t' = ln_length line \<longrightarrow> direction t' = MinusOne)
         \<and> (distanceAlongLine t' = 0 \<longrightarrow> direction t' = PlusOne)"
      by (auto simp: t3 endOfLine_def)
    ultimately show ?thesis
      using ids line long by (simp add: trainTick_def keepsToLine_def)
  qed
qed

text \<open>The tick, from a consistent world.\<close>

lemma tick_trains:
  assumes "consistent w"
  shows "\<exists>w' new. simulationTick w = Inr w' \<and> consistent w'
            \<and> list_all2 (trainTick w) (trains w) (trains w')
            \<and> simLines w' = simLines w \<and> simStations w' = simStations w
            \<and> simTime w' = simTime w + TICK_SECONDS
            \<and> simulationInterval w' = simulationInterval w \<and> running w' = running w
            \<and> outbox w' = outbox w @ new
            \<and> (\<forall>p \<in> set (activeIncidents w).
                  if expiresAt (snd p) \<le> simTime w'
                  then p \<notin> set (activeIncidents w') \<and> INCIDENT_EVENT (snd p) False \<in> set new
                  else p \<in> set (activeIncidents w'))"
proof -
  obtain w' new where t: "simulationTick w = Inr w'" "consistent w'"
      "list_all2 (trainStep (midTick w)) (trains w) (trains w')"
      "simLines w' = simLines w" "simStations w' = simStations w"
      "simTime w' = simTime w + TICK_SECONDS"
      "simulationInterval w' = simulationInterval w" "running w' = running w"
      "outbox w' = outbox w @ new"
      "\<forall>p \<in> set (activeIncidents w).
                  if expiresAt (snd p) \<le> simTime w'
                  then p \<notin> set (activeIncidents w') \<and> INCIDENT_EVENT (snd p) False \<in> set new
                  else p \<in> set (activeIncidents w')"
    using tick_inv [OF assms] by blast
  have pl: "list_all (placed w) (trains w)" and tab: "incidentsTable w"
    using assms by (simp_all add: consistent_def)
  have "list_all2 (\<lambda>t t'. placed w t \<and> trainStep (midTick w) t t') (trains w) (trains w')"
    using t(3) pl by (induction rule: list_all2_induct) auto
  then have "list_all2 (trainTick w) (trains w) (trains w')"
    by (rule list_all2_mono) (use tab trainStep_trainTick in blast)
  then show ?thesis
    using t by blast
qed


lemma ticks_numeral:
  "ticks (numeral k) w =
    (case simulationTick w of Inl e \<Rightarrow> Inl e | Inr w' \<Rightarrow> ticks (pred_numeral k) w')"
  by (simp add: numeral_eq_Suc)

lemma ticks_one: "ticks (Suc 0) w = simulationTick w"
  by (simp split: sum.splits)

lemma ticks_snoc:
  "ticks (Suc n) w = (case ticks n w of Inl e \<Rightarrow> Inl e | Inr w' \<Rightarrow> simulationTick w')"
proof (induction n arbitrary: w)
  case 0
  show ?case by (simp split: sum.splits)
next
  case (Suc n)
  show ?case
  proof (cases "simulationTick w")
    case (Inl e)
    then show ?thesis by simp
  next
    case (Inr w1)
    have a: "ticks (Suc (Suc n)) w = ticks (Suc n) w1" and b: "ticks (Suc n) w = ticks n w1"
      using Inr by simp_all
    show ?thesis
      unfolding a b by (rule Suc.IH)
  qed
qed

lemma ticks_consistent:
  "consistent w \<Longrightarrow>
   \<exists>w'. ticks n w = Inr w' \<and> consistent w' \<and> simulationInterval w' = simulationInterval w"
proof (induction n arbitrary: w)
  case 0
  then show ?case by simp
next
  case (Suc n)
  obtain w1 where t: "simulationTick w = Inr w1" "consistent w1"
      "simulationInterval w1 = simulationInterval w"
    using tick_trains [OF Suc.prems] by blast
  show ?case
    using Suc.IH [OF t(2)] t(1,3) by simp
qed

lemma ticks_reachable:
  "reachable w \<Longrightarrow> simulationInterval w \<Longrightarrow> ticks n w = Inr w' \<Longrightarrow> reachable w'"
proof (induction n arbitrary: w)
  case 0
  then show ?case by simp
next
  case (Suc n)
  obtain w1 where t: "simulationTick w = Inr w1" "simulationInterval w1 = simulationInterval w"
    using tick_trains [OF reachable_inv [OF Suc.prems(1)]] by blast
  have "reachable w1"
    using reachable.tick [OF Suc.prems(1,2) t(1)] .
  then show ?case
    using Suc.IH [of w1] Suc.prems(2,3) t by simp
qed

section \<open>The further networks, evaluated\<close>

lemma demoWorld_reachable: "reachable demoWorld"
  unfolding demoWorld_def by (intro reachable.message reachable.init)

lemma demoWorld_fields:
  "simTime demoWorld = 0" "simulationInterval demoWorld" "budget demoWorld = 5000000000"
  "activeIncidents demoWorld = []" "outbox demoWorld = [WORKER_READY, NETWORK_READY]"
  "stationQueues demoWorld = [(IdStr ''A'', []), (IdStr ''B'', [])]"
  "trains demoWorld =
     map (\<lambda>i. newTrain (Suc i) (snd (hd (simLines demoWorld))) (demoLength / 4 * real i)) [0, 1, 2, 3]"
  using demoLength_gt by (simp_all add: demo_defs)

lemma demoLength_lt: "demoLength < 141578"
  using pi_less_4 by (simp add: demoLength_value)

lemmas busy_defs =
  busyWorld_def busyLineFeature_def busyStation_def busyCell_def setDemandGrid_def
  updateNetwork_def
  initial_world_def resetSimulation_def addStationToSimulation_def prepareLines_def
  prepareLine_def lineIdentity_def segmentSum_def setAdd_def spawnTrainsForLine_def
  postMessage_def startSimulation_def Let_def upt_rec
  TRAINS_PER_LINE_def newTrain_def TRAIN_CAPACITY_def turfDistance_meridian turfDistance_same

lemmas arrive_defs =
  tick_defs spawnLoop.simps spawnOne_def random_def at_index_def enqueuePassenger_def pushQueue_def
  findNearestStation_def nearestStep_def Math_round_def HOURLY_MULTIPLIERS_def
  handleStationArrival_def boardQueue_def boardStep_def alightOne_def alightsAt_def legAt_def
  extraDwell_def isTrainHeadingToStation_def findRoute_def expandLine_def visitNeighbor_def
  finishRoute_def extractLineSegment_def BASE_DWELL_TIME_def bump_def legDistance_def
  FARE_PER_KM_def

lemma busyWorld_reachable: "reachable busyWorld"
  unfolding busyWorld_def by (intro reachable.message reachable.init)

lemma busyWorld_timer: "simulationInterval busyWorld"
  by (simp add: busy_defs)

lemma busyAfter_ticks: "ticks n busyWorld = Inr (busyAfter n)"
  using ticks_consistent [OF reachable_inv [OF busyWorld_reachable], of n]
  by (auto simp: busyAfter_def)

lemma busyAfter_reachable: "reachable (busyAfter n)"
  using ticks_reachable [OF busyWorld_reachable busyWorld_timer busyAfter_ticks] .

lemma busyAfter_tick: "simulationTick (busyAfter n) = Inr (busyAfter (Suc n))"
  using busyAfter_ticks [of "Suc n", unfolded ticks_snoc] busyAfter_ticks [of n] by simp

lemma busyAfter_zero: "busyAfter 0 = busyWorld"
  by (simp add: busyAfter_def)

lemma busy_first: "simulationTick busyWorld = Inr (busyAfter 1)"
  using busyAfter_tick [of 0] by (simp add: busyAfter_zero)

text \<open>The first tick on the three-station line.\<close>

lemma busy_first_tick:
  "map (\<lambda>t. (tr_id t, distanceAlongLine t, direction t)) (trains busyWorld)
     = [(1, 0, PlusOne), (2, 3 * demoLength / 8000, PlusOne), (3, 3 * demoLength / 4000, PlusOne),
        (4, 9 * demoLength / 8000, PlusOne)]"
  "map (\<lambda>(k, l). (k, ln_length l)) (simLines busyWorld) = [(IdStr ''L'', 3 * demoLength / 2000)]"
  "map (\<lambda>t. (tr_id t, distanceAlongLine t, direction t)) (trains (busyAfter 1))
     = [(1, 3 * demoLength / 4000, PlusOne), (2, 3 * demoLength / 4000, PlusOne),
        (3, 3 * demoLength / 2000, MinusOne), (4, 3 * demoLength / 2000, MinusOne)]"
  "map (\<lambda>t. map (\<lambda>p. (p_id p, map_option (\<lambda>r. map lineId (legs r)) (route p), currentLegIndex p))
                (passengers t)) (trains (busyAfter 1))
     = [[(1, Some [IdStr ''L''], 0)], [], [], []]"
  "map tr_lineId (trains (busyAfter 1)) = [IdStr ''L'', IdStr ''L'', IdStr ''L'', IdStr ''L'']"
  "simLines (busyAfter 1) = simLines busyWorld"
  using demoLength_gt demoLength_lt
  by (simp_all add: busyAfter_def busy_defs arrive_defs)

lemma busy_fourth_tick:
  "completedTrips (busyAfter 4) = 1 \<and> totalPassengerWaitTime (busyAfter 4) = 36"
  using demoLength_gt demoLength_lt
  by (simp add: busyAfter_def busy_defs arrive_defs ticks_numeral ticks_one)



section \<open>The long line: 18753 ticks to the first incident\<close>

lemmas long_defs =
  longWorld_def longLineFeature_def busyStation_def
  updateNetwork_def
  initial_world_def resetSimulation_def addStationToSimulation_def prepareLines_def
  prepareLine_def lineIdentity_def segmentSum_def setAdd_def spawnTrainsForLine_def
  postMessage_def startSimulation_def Let_def upt_rec
  TRAINS_PER_LINE_def newTrain_def TRAIN_CAPACITY_def turfDistance_meridian turfDistance_same

lemma longWorld_tables:
  "simLines longWorld = [(IdStr ''L'',
      \<lparr>ln_id = IdStr ''L'', ln_coords = [(0, - 89), (0, 89), (0, - 88)],
         ln_length = 355 * demoLength,
         stationDistances = [(IdStr ''A'', 0), (IdStr ''B'', 355 * demoLength)], headway = 120\<rparr>)]"
  using demoLength_gt demoLength_lt by (simp_all add: long_defs)

lemma cruise_updateTrain:
  assumes "simLines w = simLines longWorld" and "activeIncidents w = []"
    and "0 < p" and "p + 1000 < 355 * demoLength"
  shows "updateTrain w (cruiseAt k p) = Inr (w, cruiseAt k (p + 6666 / 25), 6666 / 25)"
  using assms
  by (simp add: updateTrain_def longWorld_tables cruiseAt_def getNextStation_def nextStep_def
        moveTrain_def targetSpeedFor_def clamp_def endOfLine_def Let_def TICK_SECONDS_def
        TRAIN_ACCELERATION_def MAX_TRAIN_SPEED_def)

lemma cruise_updateTrains:
  assumes "simLines w = simLines longWorld" and "activeIncidents w = []"
    and "trains w = cruisers c" and "0 < c" and "c + 1000 < 355 * demoLength / 4"
  shows "updateTrains w
    = Inr (w\<lparr>trains := cruisers (c + 6666 / 25),
             totalTrainKm := totalTrainKm w + 4 * (6666 / 25) / 1000\<rparr>)"
proof -
  have d: "0 < demoLength"
    using demoLength_gt by simp
  have "updateTrain w (cruiseAt 1 c) = Inr (w, cruiseAt 1 (c + 6666 / 25), 6666 / 25)"
    "updateTrain w (cruiseAt 2 (355 * demoLength / 4 + c))
       = Inr (w, cruiseAt 2 (355 * demoLength / 4 + c + 6666 / 25), 6666 / 25)"
    "updateTrain w (cruiseAt 3 (355 * demoLength / 2 + c))
       = Inr (w, cruiseAt 3 (355 * demoLength / 2 + c + 6666 / 25), 6666 / 25)"
    "updateTrain w (cruiseAt 4 (1065 * demoLength / 4 + c))
       = Inr (w, cruiseAt 4 (1065 * demoLength / 4 + c + 6666 / 25), 6666 / 25)"
    using assms(4,5) d by (intro cruise_updateTrain [OF assms(1,2)]; simp)+
  then show ?thesis
    by (simp add: updateTrains_def assms(3) cruisers_def add.assoc)
qed

lemma cruising_tick:
  assumes "cruising n w" and "1 \<le> n" and "n \<le> 18752"
  shows "\<exists>wE. cruising (Suc n) wE
          \<and> simulationTick w
              = Inr (postMessage (TICK (buildSnapshot (cleanupIncidents (checkForIncidents wE))))
                      (cleanupIncidents (checkForIncidents wE)))"
proof -
  have i: "simLines w = simLines longWorld" "DEMAND_GRID w = None" "activeIncidents w = []"
    "nextIncidentId w = 1" "lastIncidentKm w = 0" "randUsed w = 0" "rand w = (\<lambda>n. 0)"
    "simTime w = 12 * real n" "totalTrainKm w = 4 * offset n / 1000"
    "trains w = cruisers (offset n)"
    using assms(1) by (simp_all add: cruising_def)
  have n: "1 \<le> real n" "real n \<le> 18752"
    using assms(2,3) by simp_all
  have o: "0 < offset n" "offset n + 1000 < 355 * demoLength / 4"
    "offset n + 6666 / 25 = offset (Suc n)"
    using n demoLength_gt by (simp_all add: offset_def field_simps)
  define w1 where "w1 = w\<lparr>simTime := simTime w + TICK_SECONDS\<rparr>"
  define w2 where "w2 = (if \<lfloor>simTime w1 / 86400\<rfloor> > \<lfloor>lastDayRollover w1 / 86400\<rfloor>
               then w1\<lparr> dailyStationRidership := [], dailyLineRidership := [],
                        lastDayRollover := simTime w1 \<rparr>
               else w1)"
  define hour where "hour = \<lfloor>js_rem (simTime w1) 86400 / 3600\<rfloor>"
  have c2: "simLines w2 = simLines longWorld" "DEMAND_GRID w2 = None" "activeIncidents w2 = []"
    "nextIncidentId w2 = 1" "lastIncidentKm w2 = 0" "randUsed w2 = 0" "rand w2 = (\<lambda>n. 0)"
    "simTime w2 = 12 * real (Suc n)" "totalTrainKm w2 = 4 * offset n / 1000"
    "trains w2 = cruisers (offset n)"
    using i by (simp_all add: w2_def w1_def TICK_SECONDS_def)
  have sp: "spawnPassengers hour w2 = Inr w2"
    by (simp add: spawnPassengers_def c2(2))
  define w4 where "w4 = w2\<lparr>trains := cruisers (offset (Suc n)),
             totalTrainKm := totalTrainKm w2 + 4 * (6666 / 25) / 1000\<rparr>"
  have ut: "updateTrains w2 = Inr w4"
    using cruise_updateTrains [OF c2(1,3,10) o(1,2)] unfolding w4_def o(3) .
  have km: "totalTrainKm w4 = 4 * offset (Suc n) / 1000"
    using o(3) by (simp add: w4_def c2(9))
  obtain a b c where e: "updateEconomics w4 = w4\<lparr>totalOpex := a, cashflowPerHour := b, budget := c\<rparr>"
    using updateEconomics_frame by blast
  define wE where "wE = w4\<lparr>totalOpex := a, cashflowPerHour := b, budget := c\<rparr>"
  have "cruising (Suc n) wE"
    using c2 km by (simp add: cruising_def wE_def w4_def)
  moreover have "simulationTick w
              = Inr (postMessage (TICK (buildSnapshot (cleanupIncidents (checkForIncidents wE))))
                      (cleanupIncidents (checkForIncidents wE)))"
    using sp ut e
    unfolding wE_def hour_def w2_def w1_def
    by (simp add: simulationTick_def Let_def)
  ultimately show ?thesis by blast
qed

lemma cruising_step:
  assumes "cruising n w" and "1 \<le> n" and "n < 18752"
  shows "\<exists>w'. simulationTick w = Inr w' \<and> cruising (Suc n) w'"
proof -
  obtain wE where c: "cruising (Suc n) wE"
    and t: "simulationTick w
              = Inr (postMessage (TICK (buildSnapshot (cleanupIncidents (checkForIncidents wE))))
                      (cleanupIncidents (checkForIncidents wE)))"
    using cruising_tick [OF assms(1,2)] assms(3) by auto
  have n: "real n \<le> 18751"
    using assms(3) by simp
  have "4 * offset (Suc n) / 1000 < 20000"
    using n by (simp add: offset_def field_simps)
  then have chk: "checkForIncidents wE = wE"
    using c by (simp add: checkForIncidents_def cruising_def INCIDENT_RATE_PER_10K_KM_def)
  have cln: "cleanupIncidents wE = wE"
    using c by (simp add: cleanupIncidents_def cruising_def)
  have "cruising (Suc n) (postMessage (TICK (buildSnapshot wE)) wE)"
    using c by (simp add: cruising_def postMessage_def)
  then show ?thesis
    using t unfolding chk cln by blast
qed

lemma cruising_incident:
  assumes "cruising 18752 w"
  shows "\<exists>w'. simulationTick w = Inr w' \<and> activeIncidents w' = [(1, firstCap)]
           \<and> trains w' = cruisers (offset 18753) \<and> simTime w' = 225036"
proof -
  obtain wE where c: "cruising (Suc 18752) wE"
    and t: "simulationTick w
              = Inr (postMessage (TICK (buildSnapshot (cleanupIncidents (checkForIncidents wE))))
                      (cleanupIncidents (checkForIncidents wE)))"
    using cruising_tick [OF assms] by auto
  have i: "activeIncidents wE = []"
    "nextIncidentId wE = 1" "lastIncidentKm wE = 0" "randUsed wE = 0" "rand wE = (\<lambda>n. 0)"
    "simTime wE = 225036" "totalTrainKm wE = 4 * offset 18753 / 1000"
    "trains wE = cruisers (offset 18753)"
    using c by (simp_all add: cruising_def)
  define wC where "wC = checkForIncidents wE"
  have chk: "activeIncidents wC = [(1, firstCap)]" "trains wC = cruisers (offset 18753)"
    "simTime wC = 225036"
    unfolding wC_def
    by (simp_all add: checkForIncidents_def i INCIDENT_RATE_PER_10K_KM_def offset_def random_def
        at_index_def cruisers_def cruiseAt_def firstCap_def postMessage_def Let_def)
  have cln: "cleanupIncidents wC = wC"
    by (simp add: cleanupIncidents_def cleanupStep_def chk firstCap_def)
  show ?thesis
    using t chk unfolding wC_def [symmetric] cln by (simp add: postMessage_def)
qed

lemma longWorld_reachable: "reachable longWorld"
  unfolding longWorld_def by (intro reachable.message reachable.init)

lemma longWorld_timer: "simulationInterval longWorld"
  by (simp add: long_defs)

lemma longAfter_ticks: "ticks n longWorld = Inr (longAfter n)"
  using ticks_consistent [OF reachable_inv [OF longWorld_reachable], of n]
  by (auto simp: longAfter_def)

lemma longAfter_reachable: "reachable (longAfter n)"
  using ticks_reachable [OF longWorld_reachable longWorld_timer longAfter_ticks] .

lemma longAfter_tick: "simulationTick (longAfter n) = Inr (longAfter (Suc n))"
  using longAfter_ticks [of "Suc n", unfolded ticks_snoc] longAfter_ticks [of n] by simp

lemma long_third_tick: "cruising 3 (longAfter 3)"
  using demoLength_gt demoLength_lt
  by (simp add: longAfter_def long_defs tick_defs ticks_numeral ticks_one cruising_def cruisers_def
      cruiseAt_def offset_def)

lemma long_cruising: "3 \<le> n \<Longrightarrow> n \<le> 18752 \<Longrightarrow> cruising n (longAfter n)"
proof (induction n rule: dec_induct)
  case base
  show ?case by (rule long_third_tick)
next
  case (step n)
  have "\<exists>w'. simulationTick (longAfter n) = Inr w' \<and> cruising (Suc n) w'"
    using step by (intro cruising_step) auto
  then show ?case
    by (simp add: longAfter_tick)
qed

lemma long_incident:
  "activeIncidents (longAfter 18753) = [(1, firstCap)]"
  "trains (longAfter 18753) = cruisers (offset 18753)"
  "simTime (longAfter 18753) = 225036"
  using cruising_incident [OF long_cruising [of 18752]] longAfter_tick [of 18752]
  by simp_all

lemma ticks_add:
  "ticks (m + k) w = (case ticks m w of Inl e \<Rightarrow> Inl e | Inr w' \<Rightarrow> ticks k w')"
proof (induction m arbitrary: w)
  case 0
  show ?case by simp
next
  case (Suc m)
  show ?case
    using Suc.IH by (cases "simulationTick w") simp_all
qed

lemma longAfter_add: "ticks k (longAfter m) = Inr (longAfter (m + k))"
  using longAfter_ticks [of "m + k", unfolded ticks_add] longAfter_ticks [of m] by simp

text \<open>An incident stays in the table, and the clock advances by one tick per tick, as long
  as the incident has not expired.\<close>

lemma incident_persists:
  assumes "consistent w" and "p \<in> set (activeIncidents w)" and "ticks k w = Inr w'"
    and "simTime w + TICK_SECONDS * real k < expiresAt (snd p)"
  shows "p \<in> set (activeIncidents w') \<and> simTime w' = simTime w + TICK_SECONDS * real k"
  using assms
proof (induction k arbitrary: w)
  case 0
  then show ?case by simp
next
  case (Suc k)
  obtain w1 where t: "simulationTick w = Inr w1" "consistent w1"
      "simTime w1 = simTime w + TICK_SECONDS"
      "\<forall>p \<in> set (activeIncidents w).
                  if expiresAt (snd p) \<le> simTime w1
                  then p \<notin> set (activeIncidents w1)
                  else p \<in> set (activeIncidents w1)"
    using tick_trains [OF Suc.prems(1)] by (metis (no_types, lifting))
  have pos: "0 \<le> TICK_SECONDS * real k"
    by (simp add: TICK_SECONDS_def)
  have lt: "simTime w1 + TICK_SECONDS * real k < expiresAt (snd p)"
    using Suc.prems(4) by (simp add: t(3) algebra_simps)
  then have "simTime w1 < expiresAt (snd p)"
    using pos by linarith
  then have m: "p \<in> set (activeIncidents w1)"
    using t(4) Suc.prems(2) by auto
  have r: "ticks k w1 = Inr w'"
    using Suc.prems(3) t(1) by simp
  show ?case
    using Suc.IH [OF t(2) m r lt] by (simp add: t(3) algebra_simps)
qed

lemma long_before_expiry:
  "(1, firstCap) \<in> set (activeIncidents (longAfter 18902))"
  "simTime (longAfter 18902) = 226824"
proof -
  have c: "consistent (longAfter 18753)"
    using longAfter_reachable by (rule reachable_inv)
  have m: "(1, firstCap) \<in> set (activeIncidents (longAfter 18753))"
    by (simp add: long_incident)
  have t: "ticks 149 (longAfter 18753) = Inr (longAfter 18902)"
    using longAfter_add [of 149 18753] by simp
  have "simTime (longAfter 18753) + TICK_SECONDS * real 149 < expiresAt (snd (1::nat, firstCap))"
    by (simp add: long_incident firstCap_def TICK_SECONDS_def)
  from incident_persists [OF c m t this]
  show "(1, firstCap) \<in> set (activeIncidents (longAfter 18902))"
    "simTime (longAfter 18902) = 226824"
    by (simp_all add: long_incident TICK_SECONDS_def)
qed

lemma long_speeds:
  "map (\<lambda>t. (tr_id t, speed t)) (trains (longAfter 18753))
     = [(1, 1111 / 50), (2, 1111 / 50), (3, 1111 / 50), (4, 1111 / 50)]"
  by (simp add: long_incident cruisers_def cruiseAt_def)

section \<open>Rounding to double\<close>

lemma pow2_powr: "pow2 k = 2 powr (of_int k)"
proof (cases "0 \<le> k")
  case True
  then show ?thesis
    by (simp add: pow2_def powr_realpow [symmetric])
next
  case False
  then have r: "real (nat (- k)) = - of_int k"
    by simp
  have "(2::real) ^ nat (- k) = 2 powr real (nat (- k))"
    by (simp add: powr_realpow)
  also have "\<dots> = 2 powr (- of_int k)"
    unfolding r ..
  finally have "1 / (2::real) ^ nat (- k) = 2 powr (of_int k)"
    by (simp add: powr_minus_divide)
  then show ?thesis
    using False by (simp add: pow2_def)
qed

lemma toDouble_binade:
  assumes "pow2 k \<le> \<bar>x\<bar>" and "\<bar>x\<bar> < pow2 (k + 1)" and "- 1022 \<le> k"
  shows "toDouble x = pow2 (k - 52) * of_int (roundEven (x / pow2 (k - 52)))"
proof -
  have pos: "0 < \<bar>x\<bar>"
    using assms(1) by (smt (verit) pow2_powr powr_gt_zero)
  have "\<lfloor>log 2 \<bar>x\<bar>\<rfloor> = k"
    using assms(1,2) pos by (simp add: floor_log_eq_powr_iff pow2_powr)
  then show ?thesis
    using pos assms(3) by (simp add: toDouble_def Let_def)
qed

lemma roundEven_int: "roundEven (of_int m) = m"
  by (simp add: roundEven_def)

lemma toDouble_small_cost: "toDouble (5000000000 - 1 / 2 ^ 24) = 5000000000"
proof -
  have "toDouble (5000000000 - 1 / 2 ^ 24)
        = pow2 (32 - 52) * of_int (roundEven ((5000000000 - 1 / 2 ^ 24) / pow2 (32 - 52)))"
    by (rule toDouble_binade) (simp_all add: pow2_def)
  also have "(5000000000 - 1 / 2 ^ 24) / pow2 (32 - 52) = 5242880000000000 - 1 / 16"
    by (simp add: pow2_def)
  also have "roundEven (5242880000000000 - 1 / 16) = 5242880000000000"
  proof -
    have "\<lfloor>5242880000000000 - 1 / 16 :: real\<rfloor> = 5242879999999999"
      by (simp add: floor_eq_iff)
    then show ?thesis by (simp add: roundEven_def Let_def)
  qed
  finally show ?thesis by (simp add: pow2_def)
qed

lemma pow2_neg: "0 \<le> m \<Longrightarrow> pow2 (- m) = 1 / 2 ^ nat m"
  by (cases "m = 0") (simp_all add: pow2_def)

lemma toDouble_int:
  assumes "\<bar>n\<bar> < 2 ^ 53"
  shows "toDouble (of_int n) = of_int n"
proof (cases "n = 0")
  case True
  then show ?thesis by (simp add: toDouble_def)
next
  case False
  define k where "k = \<lfloor>log 2 \<bar>real_of_int n\<bar>\<rfloor>"
  have ab: "\<bar>real_of_int n\<bar> = real_of_int \<bar>n\<bar>"
    by simp
  have "1 \<le> \<bar>n\<bar>"
    using False by simp
  then have one: "1 \<le> \<bar>real_of_int n\<bar>"
    unfolding ab by linarith
  have "real_of_int \<bar>n\<bar> < real_of_int (2 ^ 53)"
    using assms by linarith
  then have lt: "\<bar>real_of_int n\<bar> < 2 ^ 53"
    unfolding ab by simp
  have k0: "0 \<le> k"
    unfolding k_def using one by simp
  have "log 2 \<bar>real_of_int n\<bar> < 53"
    using lt one by (subst log_less_iff) (simp_all add: powr_realpow [of 2 53, simplified])
  then have k52: "k \<le> 52"
    unfolding k_def by (simp add: floor_le_iff)
  define m where "m = nat (52 - k)"
  have ulp: "pow2 (k - 52) = 1 / 2 ^ m"
    using pow2_neg [of "52 - k"] k52 by (simp add: m_def)
  have "real_of_int n / (1 / 2 ^ m) = of_int (n * 2 ^ m)"
    by simp
  then have "roundEven (real_of_int n / (1 / 2 ^ m)) = n * 2 ^ m"
    using roundEven_int by metis
  then have "toDouble (of_int n) = (1 / 2 ^ m) * of_int (n * 2 ^ m)"
    using False k0 ulp by (simp add: toDouble_def Let_def k_def [symmetric] max_def)
  then show ?thesis by simp
qed


section \<open>Claims\<close>

text \<open>
  C1.  The claim says that a tick charges only the train-kilometres of that tick.  In
  \<^verbatim>\<open>updateEconomics\<close> the charge is \<^verbatim>\<open>totalTrainKm * OPEX_PER_TRAIN_KM\<close>, and
  \<^verbatim>\<open>totalTrainKm\<close> is the running total that \<^verbatim>\<open>updateTrains\<close> adds to and nothing
  clears.  On the small network the four trains run 0.4608 km in the first tick and
  0.9216 km in the second; the second tick adds \<open>1.3824 * 5\<close> plus the station-hours to the
  opex, not \<open>0.9216 * 5\<close> plus the station-hours: the kilometres of the first tick are
  charged a second time.
\<close>

theorem C1_second_tick_charges_first_tick_km_again:
  "(case simulationTick demoWorld of Inl e \<Rightarrow> False
    | Inr w1 \<Rightarrow>
       (case simulationTick w1 of Inl e \<Rightarrow> False
        | Inr w2 \<Rightarrow>
            totalTrainKm w1 - totalTrainKm demoWorld = 4608 / 10000
          \<and> totalTrainKm w2 - totalTrainKm w1 = 9216 / 10000
          \<and> totalOpex w2 - totalOpex w1
              = (4608 / 10000 + 9216 / 10000) * OPEX_PER_TRAIN_KM
                + real (length (simStations w2)) * OPEX_PER_STATION_HOUR * (TICK_SECONDS / 3600)
          \<and> totalOpex w2 - totalOpex w1
              \<noteq> (9216 / 10000) * OPEX_PER_TRAIN_KM
                + real (length (simStations w2)) * OPEX_PER_STATION_HOUR * (TICK_SECONDS / 3600)))"
  using demoLength_gt by (simp add: demo_defs tick_defs)

text \<open>
  C9.  A tick that completes posts one \<^verbatim>\<open>TICK\<close> snapshot, as its last message.  The
  \<^verbatim>\<open>avgWaitTime\<close> it reports is a number, never \<^verbatim>\<open>NaN\<close> or an infinity: it is
  \<^verbatim>\<open>totalPassengerWaitTime / completedTrips\<close> of the world at the end of that tick when
  at least one trip has completed, and 0 when none has.  (The division \<open>js_divide\<close> yields
  no number at divisor zero, so the statement fails for a snapshot that divides without
  the guard.)  On the small network the first snapshot reports 0, no trip having
  completed; on the three-station line the first passenger, spawned in the first tick,
  leaves the train at \<open>C\<close> in the fourth, and that tick's snapshot reports 36 seconds.
\<close>

theorem C9_avg_wait_time_guarded:
  assumes "simulationTick w = Inr w'"
  shows "\<exists>snap. outbox w' \<noteq> [] \<and> last (outbox w') = TICK snap
           \<and> snap_avgWaitTime snap
               = Num (if completedTrips w' > 0
                      then totalPassengerWaitTime w' / real (completedTrips w') else 0)"
  using assms
  by (auto simp: simulationTick_def Let_def postMessage_def buildSnapshot_def js_divide_def
           split: sum.splits)

theorem C9_avg_wait_time_guarded_witness:
  "simulationTick demoWorld = Inr (demoAfter 1)
   \<and> completedTrips (demoAfter 1) = 0
   \<and> (\<exists>snap. last (outbox (demoAfter 1)) = TICK snap \<and> snap_avgWaitTime snap = Num 0)
   \<and> simulationTick (busyAfter 3) = Inr (busyAfter 4)
   \<and> completedTrips (busyAfter 4) = 1 \<and> totalPassengerWaitTime (busyAfter 4) = 36
   \<and> (\<exists>snap. last (outbox (busyAfter 4)) = TICK snap \<and> snap_avgWaitTime snap = Num 36)"
proof -
  have none: "completedTrips (demoAfter 1) = 0"
    using demoLength_gt by (simp add: demoAfter_def demo_defs tick_defs)
  have t: "simulationTick (busyAfter 3) = Inr (busyAfter 4)"
    using busyAfter_tick [of 3] by simp
  have a: "\<exists>snap. last (outbox (demoAfter 1)) = TICK snap \<and> snap_avgWaitTime snap = Num 0"
    using C9_avg_wait_time_guarded [OF demo_first_tick] none by auto
  have b: "\<exists>snap. last (outbox (busyAfter 4)) = TICK snap \<and> snap_avgWaitTime snap = Num 36"
    using C9_avg_wait_time_guarded [OF t] busy_fourth_tick by auto
  show ?thesis
    using demo_first_tick none a t busy_fourth_tick b by blast
qed



text \<open>
  C6.  \<^verbatim>\<open>PLAN_JOURNEY\<close> snaps both points to their nearest stations.  When no chain of
  shared lines leads from the origin station to the destination station, the handler
  posts one \<^verbatim>\<open>JOURNEY_PLAN_RESULT\<close> with \<^verbatim>\<open>route: null\<close> and the two walking times
  (distance to the snapped station at 1.4 m/s), and changes nothing else in the world: it
  returns normally, as for a route that exists.
\<close>

theorem C6_no_path_posts_null_route:
  assumes "findNearestStation w originCoords = Some originStation"
    and "findNearestStation w destCoords = Some destStation"
    and "\<not> (linked w)\<^sup>*\<^sup>* (st_id originStation) (st_id destStation)"
  shows "onmessage (PLAN_JOURNEY originCoords destCoords) w =
          w\<lparr>outbox := outbox w @
             [JOURNEY_PLAN_RESULT None
                (turfDistance originCoords (st_coords originStation) / WALK_SPEED_MPS)
                (turfDistance destCoords (st_coords destStation) / WALK_SPEED_MPS)]\<rparr>"
proof -
  have "findRoute w (st_id originStation) (st_id destStation) = None"
    using findRoute_linked assms(3)
    by (cases "findRoute w (st_id originStation) (st_id destStation)") auto
  then show ?thesis
    using assms(1,2) by (simp add: handlePlanJourney_def Let_def postMessage_def)
qed

theorem C6_no_path_posts_null_route_witness:
  "(\<exists>sa sd. findNearestStation splitWorld (0, 0) = Some sa
        \<and> findNearestStation splitWorld (0, 3) = Some sd
        \<and> \<not> (linked splitWorld)\<^sup>*\<^sup>* (st_id sa) (st_id sd))
   \<and> onmessage (PLAN_JOURNEY (0, 0) (0, 3)) splitWorld
       = splitWorld\<lparr>outbox := outbox splitWorld @ [JOURNEY_PLAN_RESULT None 0 0]\<rparr>"
  using C6_no_path_posts_null_route [OF splitWorld_nearest(1) splitWorld_nearest(2)]
    splitWorld_no_path splitWorld_nearest
  by (simp add: turfDistance_same)

text \<open>
  C7.  On receipt of \<^verbatim>\<open>BUILD_INFRASTRUCTURE{cost}\<close> the worker changes the budget and
  nothing else, whatever the cashflow of the ticks before: the new budget is the double
  nearest to \<open>budget - cost\<close>, clamped from below at minus five billion.  For a budget
  and a cost that are whole numbers (with a difference below \<open>2\<^sup>5\<^sup>3\<close> in size) that is
  exactly \<open>budget - cost\<close>, clamped.  The budget plays no part in whether the simulation
  goes on: in every reachable world, whatever the cost, the tick that follows the command
  completes, advances the clock by one tick and leaves the timer and the running flag as
  they were.  A cost below half the spacing of the doubles around the budget is not
  subtracted at all: from the initial budget of five billion, a cost of \<open>2\<^sup>-\<^sup>2\<^sup>4\<close> leaves the
  budget where it was.
\<close>

theorem C7_build_command_subtracts_rounded_cost:
  "onmessage (BUILD_INFRASTRUCTURE cost) w
     = w\<lparr>budget := max (toDouble (budget w - cost)) BUDGET_FLOOR\<rparr>
   \<and> (budget w = of_int b \<and> cost = of_int c \<and> \<bar>b - c\<bar> < 2 ^ 53 \<longrightarrow>
        budget (onmessage (BUILD_INFRASTRUCTURE cost) w) = max (budget w - cost) BUDGET_FLOOR)
   \<and> (reachable w \<longrightarrow>
        (\<exists>w'. simulationTick (onmessage (BUILD_INFRASTRUCTURE cost) w) = Inr w'
           \<and> simTime w' = simTime w + TICK_SECONDS
           \<and> simulationInterval w' = simulationInterval w \<and> running w' = running w))"
proof -
  have eq: "onmessage (BUILD_INFRASTRUCTURE cost) w
     = w\<lparr>budget := max (toDouble (budget w - cost)) BUDGET_FLOOR\<rparr>"
    by (simp add: handleInfrastructureBuild_def BUDGET_FLOOR_def Let_def max_def)
  have "toDouble (budget w - cost) = budget w - cost"
    if "budget w = of_int b" "cost = of_int c" "\<bar>b - c\<bar> < 2 ^ 53"
    using toDouble_int [OF that(3)] that(1,2) by simp
  moreover have "\<exists>w'. simulationTick (onmessage (BUILD_INFRASTRUCTURE cost) w) = Inr w'
           \<and> simTime w' = simTime w + TICK_SECONDS
           \<and> simulationInterval w' = simulationInterval w \<and> running w' = running w"
    if "reachable w"
  proof -
    have "reachable (onmessage (BUILD_INFRASTRUCTURE cost) w)"
      using that by (rule reachable.message)
    then have "consistent (onmessage (BUILD_INFRASTRUCTURE cost) w)"
      by (rule reachable_inv)
    then show ?thesis
      using tick_trains [of "onmessage (BUILD_INFRASTRUCTURE cost) w"] unfolding eq by auto
  qed
  ultimately show ?thesis
    unfolding eq by simp
qed

theorem C7_build_command_subtracts_rounded_cost_witness:
  "reachable demoWorld \<and> budget demoWorld = of_int 5000000000
   \<and> \<bar>5000000000 - 6000000000 :: int\<bar> < 2 ^ 53
   \<and> budget (onmessage (BUILD_INFRASTRUCTURE (of_int 6000000000)) demoWorld) = - 1000000000
   \<and> (\<exists>w'. simulationTick (onmessage (BUILD_INFRASTRUCTURE (of_int 6000000000)) demoWorld) = Inr w'
         \<and> simTime w' = 12 \<and> simulationInterval w' \<and> running w')"
proof -
  note c7 = C7_build_command_subtracts_rounded_cost [of "of_int 6000000000" demoWorld 5000000000 6000000000]
  have b: "budget demoWorld = of_int 5000000000"
    by (simp add: demoWorld_fields)
  have c: "\<bar>5000000000 - 6000000000 :: int\<bar> < 2 ^ 53"
    by simp
  have "budget (onmessage (BUILD_INFRASTRUCTURE (of_int 6000000000)) demoWorld)
      = max (budget demoWorld - of_int 6000000000) BUDGET_FLOOR"
    using c7 b c by blast
  also have "\<dots> = - 1000000000"
    unfolding b by (simp add: BUDGET_FLOOR_def)
  finally have n: "budget (onmessage (BUILD_INFRASTRUCTURE (of_int 6000000000)) demoWorld)
      = - 1000000000" .
  obtain w' where t: "simulationTick (onmessage (BUILD_INFRASTRUCTURE (of_int 6000000000)) demoWorld) = Inr w'"
      "simTime w' = simTime demoWorld + TICK_SECONDS"
      "simulationInterval w' = simulationInterval demoWorld" "running w' = running demoWorld"
    using c7 demoWorld_reachable by blast
  have "simTime w' = 12" "simulationInterval w'" "running w'"
    using t(2,3,4) by (simp_all add: demoWorld_fields TICK_SECONDS_def demo_defs)
  then show ?thesis
    using demoWorld_reachable b c n t(1) by blast
qed

theorem C7_small_cost_is_not_subtracted_counterexample:
  "budget (onmessage (BUILD_INFRASTRUCTURE (1 / 2 ^ 24)) (initial_world (\<lambda>n. 0))) = 5000000000
   \<and> budget (onmessage (BUILD_INFRASTRUCTURE (1 / 2 ^ 24)) (initial_world (\<lambda>n. 0)))
       \<noteq> budget (initial_world (\<lambda>n. 0)) - 1 / 2 ^ 24"
  using toDouble_small_cost
  by (simp add: handleInfrastructureBuild_def initial_world_def BUDGET_FLOOR_def Let_def)

text \<open>
  C8.  In every reachable world the tick completes, and at its end no incident of the
  table has \<^verbatim>\<open>expiresAt \<le> simTime\<close>.  An incident that was active when the tick began and
  whose expiry time is at or before the new clock is gone from the table, and its
  \<^verbatim>\<open>INCIDENT_EVENT\<close> with \<^verbatim>\<open>active: false\<close> is among the messages posted during that tick;
  every other incident of the old table is still active.  On the long line the first
  incident, created in tick 18753 with an expiry time of 226836 s, is still in the table
  after tick 18902 and is removed in tick 18903, which brings the clock to 226836 s.
\<close>

theorem C8_expired_incidents_are_removed:
  assumes "reachable w"
  shows "\<exists>w' new. simulationTick w = Inr w' \<and> simTime w' = simTime w + TICK_SECONDS
           \<and> outbox w' = outbox w @ new
           \<and> list_all (\<lambda>(k, i). simTime w' < expiresAt i) (activeIncidents w')
           \<and> (\<forall>p \<in> set (activeIncidents w).
                 if expiresAt (snd p) \<le> simTime w'
                 then p \<notin> set (activeIncidents w') \<and> INCIDENT_EVENT (snd p) False \<in> set new
                 else p \<in> set (activeIncidents w'))"
proof -
  have "consistent w"
    using assms by (rule reachable_inv)
  then obtain w' new where t: "simulationTick w = Inr w'" "consistent w'"
      "simTime w' = simTime w + TICK_SECONDS" "outbox w' = outbox w @ new"
      "\<forall>p \<in> set (activeIncidents w).
                  if expiresAt (snd p) \<le> simTime w'
                  then p \<notin> set (activeIncidents w') \<and> INCIDENT_EVENT (snd p) False \<in> set new
                  else p \<in> set (activeIncidents w')"
    using tick_trains [of w] by blast
  have "list_all (\<lambda>(k, i). simTime w' < expiresAt i) (activeIncidents w')"
    using t(2) by (simp add: consistent_def incidentsFresh_def)
  then show ?thesis
    using t by blast
qed

theorem C8_expired_incidents_are_removed_witness:
  "reachable (longAfter 18902)
   \<and> (1, firstCap) \<in> set (activeIncidents (longAfter 18902))
   \<and> simTime (longAfter 18902) = 226824 \<and> expiresAt firstCap = 226836
   \<and> simulationTick (longAfter 18902) = Inr (longAfter 18903)
   \<and> simTime (longAfter 18903) = 226836
   \<and> (1, firstCap) \<notin> set (activeIncidents (longAfter 18903))
   \<and> (\<exists>new. outbox (longAfter 18903) = outbox (longAfter 18902) @ new
          \<and> INCIDENT_EVENT firstCap False \<in> set new)"
proof -
  have t: "simulationTick (longAfter 18902) = Inr (longAfter 18903)"
    using longAfter_tick [of 18902] by simp
  obtain new where n: "simTime (longAfter 18903) = simTime (longAfter 18902) + TICK_SECONDS"
      "outbox (longAfter 18903) = outbox (longAfter 18902) @ new"
      "\<forall>p \<in> set (activeIncidents (longAfter 18902)).
                 if expiresAt (snd p) \<le> simTime (longAfter 18903)
                 then p \<notin> set (activeIncidents (longAfter 18903))
                      \<and> INCIDENT_EVENT (snd p) False \<in> set new
                 else p \<in> set (activeIncidents (longAfter 18903))"
    using C8_expired_incidents_are_removed [OF longAfter_reachable [of 18902]] unfolding t by auto
  have s: "simTime (longAfter 18903) = 226836"
    using n(1) by (simp add: long_before_expiry TICK_SECONDS_def)
  have e: "expiresAt firstCap = 226836"
    by (simp add: firstCap_def)
  have "(1, firstCap) \<notin> set (activeIncidents (longAfter 18903))
      \<and> INCIDENT_EVENT firstCap False \<in> set new"
    using n(3) long_before_expiry(1) s e by fastforce
  then show ?thesis
    using longAfter_reachable [of 18902] long_before_expiry t s e n(2) by blast
qed

text \<open>
  C3.  In every reachable world the tick completes, and takes each train to a train
  with the same identifier, on a line of the table that has at least two matched
  stations, for which \<open>keepsToLine\<close> holds: the position ends within \<open>[0, length]\<close> (for a
  length that is not negative, as every sum of distances on the globe is); the direction
  differs from the one before the tick only where the position ends at \<open>length\<close>, and
  then it is \<open>-1\<close>, or at \<open>0\<close>, and then it is \<open>+1\<close>; and a train that was moving and ends
  on an end of a line of positive length faces away from that end.  On the three-station
  line, the first tick brings the trains 3 and 4 to the far end, where they turn.
\<close>

theorem C3_trains_keep_to_their_line:
  assumes "reachable w"
  shows "\<exists>w'. simulationTick w = Inr w'
           \<and> list_all2 (\<lambda>t t'. tr_id t' = tr_id t
                 \<and> (case map_of (simLines w') (tr_lineId t') of None \<Rightarrow> False
                     | Some line \<Rightarrow> 2 \<le> length (stationDistances line) \<and> keepsToLine line t t'))
               (trains w) (trains w')"
proof -
  have "consistent w"
    using assms by (rule reachable_inv)
  then obtain w' where t: "simulationTick w = Inr w'"
      "list_all2 (trainTick w) (trains w) (trains w')" "simLines w' = simLines w"
    using tick_trains [of w] by blast
  have "list_all2 (\<lambda>t t'. tr_id t' = tr_id t
                 \<and> (case map_of (simLines w') (tr_lineId t') of None \<Rightarrow> False
                     | Some line \<Rightarrow> 2 \<le> length (stationDistances line) \<and> keepsToLine line t t'))
               (trains w) (trains w')"
    using t(2) unfolding t(3) by (rule list_all2_mono) (simp add: trainTick_def)
  then show ?thesis
    using t(1) by blast
qed

theorem C3_trains_keep_to_their_line_witness:
  "reachable busyWorld
   \<and> simulationTick busyWorld = Inr (busyAfter 1)
   \<and> map (\<lambda>(k, l). (k, ln_length l)) (simLines (busyAfter 1)) = [(IdStr ''L'', 3 * demoLength / 2000)]
   \<and> map (\<lambda>t. (tr_id t, distanceAlongLine t, direction t)) (trains busyWorld)
       = [(1, 0, PlusOne), (2, 3 * demoLength / 8000, PlusOne), (3, 3 * demoLength / 4000, PlusOne),
          (4, 9 * demoLength / 8000, PlusOne)]
   \<and> map (\<lambda>t. (tr_id t, distanceAlongLine t, direction t)) (trains (busyAfter 1))
       = [(1, 3 * demoLength / 4000, PlusOne), (2, 3 * demoLength / 4000, PlusOne),
          (3, 3 * demoLength / 2000, MinusOne), (4, 3 * demoLength / 2000, MinusOne)]
   \<and> list_all2 (\<lambda>t t'. tr_id t' = tr_id t
           \<and> (case map_of (simLines (busyAfter 1)) (tr_lineId t') of None \<Rightarrow> False
               | Some line \<Rightarrow> 2 \<le> length (stationDistances line) \<and> keepsToLine line t t'))
         (trains busyWorld) (trains (busyAfter 1))"
proof -
  have "list_all2 (\<lambda>t t'. tr_id t' = tr_id t
           \<and> (case map_of (simLines (busyAfter 1)) (tr_lineId t') of None \<Rightarrow> False
               | Some line \<Rightarrow> 2 \<le> length (stationDistances line) \<and> keepsToLine line t t'))
         (trains busyWorld) (trains (busyAfter 1))"
    using C3_trains_keep_to_their_line [OF busyWorld_reachable] busy_first by auto
  then show ?thesis
    using busyWorld_reachable busy_first busy_first_tick(1,2,3,6) by simp
qed

text \<open>
  C4.  In every reachable world the tick completes.  When a \<^verbatim>\<open>speed_cap\<close> incident on
  train \<open>T\<close> is in the table at the start of a tick, the speed of \<open>T\<close> at the end of that
  tick is at most the value of the incident, and in any case at most the target speed
  \<open>targetSpeedFor\<close>, which is the nominal maximum \<open>MAX_TRAIN_SPEED\<close> for a train that no
  \<^verbatim>\<open>speed_cap\<close> of the table names, as it is again once the incident has expired and left
  the table.  This includes the tick in which the incident expires, since
  \<^verbatim>\<open>cleanupIncidents\<close> runs after the trains have moved.  It does not include the tick in
  which the incident is created: \<^verbatim>\<open>checkForIncidents\<close> runs after \<^verbatim>\<open>updateTrains\<close>, so at
  the end of that tick the incident is active and far from expiry while its train still
  has the speed it reached without the cap.  On the long line, tick 18753 creates a cap of
  13.332 m/s on train 1 and leaves the train at 22.22 m/s; the tick after it brings the
  train under the cap.
\<close>

theorem C4_speed_cap_binds_from_the_next_tick:
  assumes "reachable w"
  shows "\<exists>w'. simulationTick w = Inr w'
           \<and> list_all2 (\<lambda>t t'. tr_id t' = tr_id t \<and> speed t' \<le> targetSpeedFor w t
                 \<and> targetSpeedFor w t \<le> MAX_TRAIN_SPEED
                 \<and> list_all (\<lambda>(k, i). inc_type i = speed_cap \<and> targetId i = IdNum (int (tr_id t))
                                       \<longrightarrow> speed t' \<le> inc_value i)
                     (activeIncidents w)
                 \<and> (list_all (\<lambda>(k, i). \<not> (inc_type i = speed_cap
                                               \<and> targetId i = IdNum (int (tr_id t))))
                         (activeIncidents w)
                     \<longrightarrow> targetSpeedFor w t = MAX_TRAIN_SPEED))
               (trains w) (trains w')"
proof -
  have "consistent w"
    using assms by (rule reachable_inv)
  then obtain w' where t: "simulationTick w = Inr w'"
      "list_all2 (trainTick w) (trains w) (trains w')"
    using tick_trains [of w] by blast
  have "tr_id t' = tr_id t \<and> speed t' \<le> targetSpeedFor w t
        \<and> targetSpeedFor w t \<le> MAX_TRAIN_SPEED
        \<and> list_all (\<lambda>(k, i). inc_type i = speed_cap \<and> targetId i = IdNum (int (tr_id t))
                              \<longrightarrow> speed t' \<le> inc_value i)
            (activeIncidents w)
        \<and> (list_all (\<lambda>(k, i). \<not> (inc_type i = speed_cap
                                      \<and> targetId i = IdNum (int (tr_id t))))
                (activeIncidents w)
                     \<longrightarrow> targetSpeedFor w t = MAX_TRAIN_SPEED)"
    if "trainTick w t t'" for t t'
  proof -
    have s: "speed t' \<le> targetSpeedFor w t" and i: "tr_id t' = tr_id t"
      using that by (simp_all add: trainTick_def)
    have m: "targetSpeedFor w t \<le> MAX_TRAIN_SPEED"
      unfolding targetSpeedFor_def by (rule capFold_le)
    have c: "speed t' \<le> inc_value i"
      if "(k, i) \<in> set (activeIncidents w)" "inc_type i = speed_cap"
        "targetId i = IdNum (int (tr_id t))" for k i
      using targetSpeedFor_cap [OF that] s by simp
    have f: "targetSpeedFor w t = MAX_TRAIN_SPEED"
      if "list_all (\<lambda>(k, i). \<not> (inc_type i = speed_cap \<and> targetId i = IdNum (int (tr_id t))))
            (activeIncidents w)"
      using that by (intro targetSpeedFor_free) (auto simp: list_all_iff)
    show ?thesis
      using s i m c f by (auto simp: list_all_iff)
  qed
  then have "list_all2 (\<lambda>t t'. tr_id t' = tr_id t \<and> speed t' \<le> targetSpeedFor w t
                 \<and> targetSpeedFor w t \<le> MAX_TRAIN_SPEED
                 \<and> list_all (\<lambda>(k, i). inc_type i = speed_cap \<and> targetId i = IdNum (int (tr_id t))
                                       \<longrightarrow> speed t' \<le> inc_value i)
                     (activeIncidents w)
                 \<and> (list_all (\<lambda>(k, i). \<not> (inc_type i = speed_cap
                                               \<and> targetId i = IdNum (int (tr_id t))))
                         (activeIncidents w)
                     \<longrightarrow> targetSpeedFor w t = MAX_TRAIN_SPEED))
               (trains w) (trains w')"
    using t(2) by (auto elim!: list_all2_mono)
  then show ?thesis
    using t(1) by blast
qed

theorem C4_speed_cap_binds_from_the_next_tick_witness:
  "reachable (longAfter 18753)
   \<and> activeIncidents (longAfter 18753) = [(1, firstCap)]
   \<and> inc_type firstCap = speed_cap \<and> targetId firstCap = IdNum 1 \<and> inc_value firstCap = 3333 / 250
   \<and> map (\<lambda>t. (tr_id t, speed t)) (trains (longAfter 18753))
       = [(1, 1111 / 50), (2, 1111 / 50), (3, 1111 / 50), (4, 1111 / 50)]
   \<and> map (targetSpeedFor (longAfter 18753)) (trains (longAfter 18753))
       = [3333 / 250, MAX_TRAIN_SPEED, MAX_TRAIN_SPEED, MAX_TRAIN_SPEED]
   \<and> simulationTick (longAfter 18753) = Inr (longAfter 18754)
   \<and> (\<exists>t ts. trains (longAfter 18754) = t # ts \<and> tr_id t = 1 \<and> speed t \<le> 3333 / 250)"
proof -
  have t: "simulationTick (longAfter 18753) = Inr (longAfter 18754)"
    using longAfter_tick [of 18753] by simp
  have l: "list_all2 (\<lambda>t t'. tr_id t' = tr_id t
                 \<and> speed t' \<le> targetSpeedFor (longAfter 18753) t
                 \<and> targetSpeedFor (longAfter 18753) t \<le> MAX_TRAIN_SPEED
                 \<and> list_all (\<lambda>(k, i). inc_type i = speed_cap \<and> targetId i = IdNum (int (tr_id t))
                                       \<longrightarrow> speed t' \<le> inc_value i)
                     (activeIncidents (longAfter 18753))
                 \<and> (list_all (\<lambda>(k, i). \<not> (inc_type i = speed_cap
                                               \<and> targetId i = IdNum (int (tr_id t))))
                         (activeIncidents (longAfter 18753))
                     \<longrightarrow> targetSpeedFor (longAfter 18753) t = MAX_TRAIN_SPEED))
               (trains (longAfter 18753)) (trains (longAfter 18754))"
    using C4_speed_cap_binds_from_the_next_tick [OF longAfter_reachable [of 18753]] unfolding t by auto
  have f: "inc_type firstCap = speed_cap" "targetId firstCap = IdNum 1"
    "inc_value firstCap = 3333 / 250"
    by (simp_all add: firstCap_def MAX_TRAIN_SPEED_def)
  have "\<exists>t ts. trains (longAfter 18754) = t # ts \<and> tr_id t = 1 \<and> speed t \<le> 3333 / 250"
    using l f unfolding long_incident(1,2)
    by (auto simp: cruisers_def cruiseAt_def list_all2_Cons1)
  moreover have "map (targetSpeedFor (longAfter 18753)) (trains (longAfter 18753))
       = [3333 / 250, MAX_TRAIN_SPEED, MAX_TRAIN_SPEED, MAX_TRAIN_SPEED]"
    by (simp add: targetSpeedFor_def long_incident cruisers_def cruiseAt_def firstCap_def
        MAX_TRAIN_SPEED_def)
  ultimately show ?thesis
    using longAfter_reachable [of 18753] long_incident(1) f long_speeds t by blast
qed

theorem C4_cap_created_after_the_trains_moved_counterexample:
  "reachable (longAfter 18752)
   \<and> simulationTick (longAfter 18752) = Inr (longAfter 18753)
   \<and> activeIncidents (longAfter 18752) = []
   \<and> activeIncidents (longAfter 18753) = [(1, firstCap)]
   \<and> inc_type firstCap = speed_cap \<and> targetId firstCap = IdNum 1
   \<and> simTime (longAfter 18753) < expiresAt firstCap
   \<and> map (\<lambda>t. (tr_id t, speed t)) (trains (longAfter 18753))
       = [(1, 1111 / 50), (2, 1111 / 50), (3, 1111 / 50), (4, 1111 / 50)]
   \<and> inc_value firstCap < 1111 / 50"
proof -
  have "simulationTick (longAfter 18752) = Inr (longAfter 18753)"
    using longAfter_tick [of 18752] by simp
  moreover have "activeIncidents (longAfter 18752) = []"
    using long_cruising [of 18752] by (simp add: cruising_def)
  moreover have "inc_type firstCap = speed_cap" "targetId firstCap = IdNum 1"
    "simTime (longAfter 18753) < expiresAt firstCap" "inc_value firstCap < 1111 / 50"
    by (simp_all add: firstCap_def MAX_TRAIN_SPEED_def long_incident)
  ultimately show ?thesis
    using longAfter_reachable [of 18752] long_incident(1) long_speeds by blast
qed

text \<open>
  C10.  In every reachable world, every passenger aboard a train has a route, and the
  leg of that route at the passenger's current index is a leg on the train's line.  So
  the filter with which \<^verbatim>\<open>handleStationArrival\<close> rebuilds \<^verbatim>\<open>train.passengers\<close> never takes
  its first branch, \<^verbatim>\<open>if (!p.route) return false\<close>: at whatever station the train arrives,
  the filter keeps exactly the passengers who do not alight there.  After the first tick
  on the three-station line, train 1 stands at \<open>B\<close> with passenger 1 aboard, whose route
  is the one leg on line \<open>L\<close> that the boarding step has just computed.
\<close>

theorem C10_riders_have_routes:
  assumes "reachable w"
  shows "list_all (\<lambda>t.
            list_all (\<lambda>p. route p \<noteq> None
                          \<and> (case legAt p of None \<Rightarrow> False | Some leg \<Rightarrow> lineId leg = tr_lineId t))
              (passengers t)
          \<and> (\<forall>station. filter (\<lambda>p. route p \<noteq> None \<and> \<not> alightsAt station p) (passengers t)
                        = filter (\<lambda>p. \<not> alightsAt station p) (passengers t)))
         (trains w)"
proof -
  have r: "list_all (ridersOK w) (trains w)"
    using reachable_inv [OF assms] by (simp add: consistent_def)
  have "list_all (\<lambda>p. route p \<noteq> None
                          \<and> (case legAt p of None \<Rightarrow> False | Some leg \<Rightarrow> lineId leg = tr_lineId t))
              (passengers t)
          \<and> (\<forall>station. filter (\<lambda>p. route p \<noteq> None \<and> \<not> alightsAt station p) (passengers t)
                        = filter (\<lambda>p. \<not> alightsAt station p) (passengers t))"
    if "ridersOK w t" for t
  proof -
    have p: "route p \<noteq> None
          \<and> (case legAt p of None \<Rightarrow> False | Some leg \<Rightarrow> lineId leg = tr_lineId t)"
      if "p \<in> set (passengers t)" for p
      using \<open>ridersOK w t\<close> that
      by (auto simp: ridersOK_def onLine_def legAt_def list_all_iff split: option.splits)
    then have "filter (\<lambda>p. route p \<noteq> None \<and> \<not> alightsAt station p) (passengers t)
                        = filter (\<lambda>p. \<not> alightsAt station p) (passengers t)" for station
      by (intro filter_cong) auto
    then show ?thesis
      using p by (simp add: list_all_iff)
  qed
  then show ?thesis
    using r by (auto simp: list_all_iff)
qed

theorem C10_riders_have_routes_witness:
  "reachable (busyAfter 1)
   \<and> map (\<lambda>t. map (\<lambda>p. (p_id p, map_option (\<lambda>r. map lineId (legs r)) (route p), currentLegIndex p))
                  (passengers t)) (trains (busyAfter 1))
       = [[(1, Some [IdStr ''L''], 0)], [], [], []]
   \<and> map tr_lineId (trains (busyAfter 1)) = [IdStr ''L'', IdStr ''L'', IdStr ''L'', IdStr ''L'']
   \<and> list_all (\<lambda>t.
            list_all (\<lambda>p. route p \<noteq> None
                          \<and> (case legAt p of None \<Rightarrow> False | Some leg \<Rightarrow> lineId leg = tr_lineId t))
              (passengers t)
          \<and> (\<forall>station. filter (\<lambda>p. route p \<noteq> None \<and> \<not> alightsAt station p) (passengers t)
                        = filter (\<lambda>p. \<not> alightsAt station p) (passengers t)))
         (trains (busyAfter 1))"
  using C10_riders_have_routes [OF busyAfter_reachable [of 1]] busyAfter_reachable [of 1]
    busy_first_tick(4,5)
  by simp




end
